theory Spec2Isabelle
  imports Main "HOL-Library.Multiset" "HOL-Library.Sublist"
begin

section \<open>Data model\<close>

text \<open>
  The two tables of the schema and the client-side types of \<^verbatim>\<open>src/lib/supabase.ts\<close>.
  UUIDs are natural numbers and \<^verbatim>\<open>gen_random_uuid()\<close> draws them from a counter kept
  with the database, so a generated id is fresh. Timestamps are natural numbers (a tick
  count); the server's \<^verbatim>\<open>NOW()\<close> and the client's \<^verbatim>\<open>new Date()\<close> are inputs of
  the operations that read them.

  The column \<^verbatim>\<open>title\<close> is \<^verbatim>\<open>TEXT NOT NULL\<close>, a \<open>string\<close>. The column
  \<^verbatim>\<open>content\<close> is \<^verbatim>\<open>TEXT DEFAULT ''\<close> without \<^verbatim>\<open>NOT NULL\<close>, so it is a
  \<open>string option\<close> with \<open>None\<close> for SQL's NULL: the trigger compares it with \<^verbatim>\<open>!=\<close>, whose
  result on NULL is NULL. The other nullable columns (ids, timestamps) are never compared
  by the code and are modelled without NULL.
\<close>

type_synonym uuid = nat
type_synonym timestamp = nat

datatype change_type = created | title_updated | content_modified | restored

record document =
  doc_id :: uuid
  doc_title :: string
  doc_content :: "string option"
  doc_created_at :: timestamp
  doc_updated_at :: timestamp
  doc_user_id :: uuid

record document_version =
  ver_id :: uuid
  ver_document_id :: uuid
  ver_title :: string
  ver_content :: "string option"
  ver_change_type :: change_type
  ver_user_id :: uuid
  ver_created_at :: timestamp

text \<open>The client's \<^verbatim>\<open>DocumentVersion\<close>: a row of the table with the resolved email.\<close>

record DocumentVersion = document_version +
  user_email :: string

record db =
  tbl_documents :: "document list"
  tbl_document_versions :: "document_version list"
  next_uuid :: uuid

definition gen_random_uuid :: "db \<Rightarrow> uuid \<times> db" where
  "gen_random_uuid d = (next_uuid d, d\<lparr>next_uuid := Suc (next_uuid d)\<rparr>)"

section \<open>The Version Recorder: trigger \<^verbatim>\<open>create_document_version\<close>\<close>

text \<open>SQL's three-valued logic: a comparison with NULL is NULL, and \<^verbatim>\<open>IF\<close> takes a
  branch only when its condition is true.\<close>

definition sql_ne :: "'a option \<Rightarrow> 'a option \<Rightarrow> bool option" where
  "sql_ne a b = (case (a, b) of (Some x, Some y) \<Rightarrow> Some (x \<noteq> y) | _ \<Rightarrow> None)"

definition sql_and :: "bool option \<Rightarrow> bool option \<Rightarrow> bool option" where
  "sql_and a b =
     (if a = Some False \<or> b = Some False then Some False
      else if a = Some True \<and> b = Some True then Some True
      else None)"

definition is_true :: "bool option \<Rightarrow> bool" where
  "is_true c = (c = Some True)"

datatype tg_op = INSERT | UPDATE

text \<open>
  The \<^verbatim>\<open>IF ... ELSIF ... ELSE\<close> chain of the trigger function. \<open>None\<close> is the
  \<^verbatim>\<open>ELSE\<close> branch, which returns before the insert. (The function's first statement
  selects the row's title and content into two variables it never reads.)
\<close>

definition change_type_val :: "tg_op \<Rightarrow> document \<Rightarrow> document \<Rightarrow> change_type option" where
  "change_type_val op OLD NEW =
     (if op = INSERT then Some created
      else if is_true (sql_and (sql_ne (Some (doc_title OLD)) (Some (doc_title NEW)))
                               (sql_ne (doc_content OLD) (doc_content NEW)))
        then Some content_modified
      else if is_true (sql_ne (Some (doc_title OLD)) (Some (doc_title NEW)))
        then Some title_updated
      else if is_true (sql_ne (doc_content OLD) (doc_content NEW))
        then Some content_modified
      else None)"

text \<open>\<^verbatim>\<open>INSERT INTO document_versions (document_id, title, content, change_type, user_id)\<close>:
  the id and the creation time take their column defaults.\<close>

definition insert_version_row ::
  "timestamp \<Rightarrow> uuid \<Rightarrow> string \<Rightarrow> string option \<Rightarrow> change_type \<Rightarrow> uuid \<Rightarrow> db \<Rightarrow> db" where
  "insert_version_row now did t c ct uid d =
     (let (vid, d') = gen_random_uuid d in
      d'\<lparr>tbl_document_versions := tbl_document_versions d' @
           [\<lparr>ver_id = vid, ver_document_id = did, ver_title = t, ver_content = c,
             ver_change_type = ct, ver_user_id = uid, ver_created_at = now\<rparr>]\<rparr>)"

definition create_document_version ::
  "tg_op \<Rightarrow> document \<Rightarrow> document \<Rightarrow> timestamp \<Rightarrow> db \<Rightarrow> db" where
  "create_document_version op OLD NEW now d =
     (case change_type_val op OLD NEW of
        None \<Rightarrow> d
      | Some ct \<Rightarrow>
          insert_version_row now (doc_id NEW) (doc_title NEW) (doc_content NEW) ct
            (doc_user_id NEW) d)"


section \<open>The storage service: statements on the two tables\<close>

text \<open>
  \<^verbatim>\<open>INSERT INTO documents (title, content, user_id) ... RETURNING *\<close>, with the id and the
  two timestamps from their defaults, followed by the \<^verbatim>\<open>AFTER INSERT\<close> trigger. The
  trigger function does not read \<^verbatim>\<open>OLD\<close> on an insert; the model passes the new row.
\<close>

definition insert_document ::
  "timestamp \<Rightarrow> string \<Rightarrow> string option \<Rightarrow> uuid \<Rightarrow> db \<Rightarrow> document \<times> db" where
  "insert_document now t c uid d =
     (let (i, d1) = gen_random_uuid d;
          NEW = \<lparr>doc_id = i, doc_title = t, doc_content = c, doc_created_at = now,
                 doc_updated_at = now, doc_user_id = uid\<rparr>;
          d2 = d1\<lparr>tbl_documents := tbl_documents d1 @ [NEW]\<rparr>
      in (NEW, create_document_version INSERT NEW NEW now d2))"

text \<open>The \<^verbatim>\<open>SET\<close> clause the client sends: title and content when present, and
  \<^verbatim>\<open>updated_at\<close> always.\<close>

record assignments =
  set_title :: "string option"
  set_content :: "string option option"
  set_updated_at :: timestamp

definition apply_set :: "assignments \<Rightarrow> document \<Rightarrow> document" where
  "apply_set a r =
     r\<lparr>doc_title := (case set_title a of None \<Rightarrow> doc_title r | Some t \<Rightarrow> t),
       doc_content := (case set_content a of None \<Rightarrow> doc_content r | Some c \<Rightarrow> c),
       doc_updated_at := set_updated_at a\<rparr>"

text \<open>The \<^verbatim>\<open>BEFORE UPDATE\<close> trigger \<^verbatim>\<open>update_updated_at_column\<close>.\<close>

definition update_updated_at_column :: "timestamp \<Rightarrow> document \<Rightarrow> document" where
  "update_updated_at_column now NEW = NEW\<lparr>doc_updated_at := now\<rparr>"

text \<open>\<^verbatim>\<open>UPDATE documents SET ... WHERE id = i\<close>: every matching row is rewritten, and the
  \<^verbatim>\<open>AFTER UPDATE\<close> trigger runs once for each of them with its old and new row.\<close>

definition update_documents :: "timestamp \<Rightarrow> assignments \<Rightarrow> uuid \<Rightarrow> db \<Rightarrow> db" where
  "update_documents now a i d =
     (let new = (\<lambda>r. update_updated_at_column now (apply_set a r));
          rows = filter (\<lambda>r. doc_id r = i) (tbl_documents d);
          d1 = d\<lparr>tbl_documents := map (\<lambda>r. if doc_id r = i then new r else r) (tbl_documents d)\<rparr>
      in fold (\<lambda>r. create_document_version UPDATE r (new r) now) rows d1)"

text \<open>\<^verbatim>\<open>DELETE FROM documents WHERE id = i\<close>; the foreign key of \<^verbatim>\<open>document_versions\<close>
  is \<^verbatim>\<open>ON DELETE CASCADE\<close>, so the versions that reference a deleted row go with it.\<close>

definition delete_documents :: "uuid \<Rightarrow> db \<Rightarrow> db" where
  "delete_documents i d =
     (let gone = map doc_id (filter (\<lambda>r. doc_id r = i) (tbl_documents d)) in
      d\<lparr>tbl_documents := filter (\<lambda>r. doc_id r \<noteq> i) (tbl_documents d),
        tbl_document_versions :=
          filter (\<lambda>v. ver_document_id v \<notin> set gone) (tbl_document_versions d)\<rparr>)"

text \<open>An insert into \<^verbatim>\<open>document_versions\<close> from outside the trigger: the foreign key
  rejects a document id that is not in \<^verbatim>\<open>documents\<close>.\<close>

definition insert_document_version ::
  "timestamp \<Rightarrow> uuid \<Rightarrow> string \<Rightarrow> string option \<Rightarrow> change_type \<Rightarrow> uuid \<Rightarrow> db \<Rightarrow> db option" where
  "insert_document_version now did t c ct uid d =
     (if did \<in> set (map doc_id (tbl_documents d))
      then Some (insert_version_row now did t c ct uid d) else None)"

definition select_version_by_id :: "uuid \<Rightarrow> db \<Rightarrow> document_version list" where
  "select_version_by_id vid d = filter (\<lambda>v. ver_id v = vid) (tbl_document_versions d)"

text \<open>\<^verbatim>\<open>ORDER BY ... DESC\<close> on a timestamp column, as an insertion sort. Rows with
  equal timestamps keep their table order here; the database leaves their order open.\<close>

fun insert_desc :: "('a \<Rightarrow> timestamp) \<Rightarrow> 'a \<Rightarrow> 'a list \<Rightarrow> 'a list" where
  "insert_desc key x [] = [x]"
| "insert_desc key x (y # ys) =
     (if key y \<le> key x then x # y # ys else y # insert_desc key x ys)"

fun order_by_desc :: "('a \<Rightarrow> timestamp) \<Rightarrow> 'a list \<Rightarrow> 'a list" where
  "order_by_desc key [] = []"
| "order_by_desc key (x # xs) = insert_desc key x (order_by_desc key xs)"

definition select_versions_by_document :: "uuid \<Rightarrow> db \<Rightarrow> document_version list" where
  "select_versions_by_document did d =
     order_by_desc ver_created_at
       (filter (\<lambda>v. ver_document_id v = did) (tbl_document_versions d))"

section \<open>The client store: \<^verbatim>\<open>src/stores/documentStore.ts\<close>\<close>

text \<open>
  A value thrown in the store is either an \<^verbatim>\<open>Error\<close> instance with its message or
  something else; \<^verbatim>\<open>error instanceof Error ? error.message : fallback\<close> tells them
  apart. Every call to the storage service takes a fault from the environment: with
  \<open>Some e\<close> the call answers with the error \<open>e\<close> and the tables stay as they were, with
  \<open>None\<close> the statement runs.
\<close>

datatype js_error = Error string | NonError

definition error_message :: "string \<Rightarrow> js_error \<Rightarrow> string" where
  "error_message fallback e = (case e of Error m \<Rightarrow> m | NonError \<Rightarrow> fallback)"

record DocumentState =
  documents :: "document list"
  currentDocument :: "document option"
  versions :: "DocumentVersion list"
  loading :: bool
  versionsLoading :: bool
  error :: "string option"

text \<open>\<^verbatim>\<open>.single()\<close>: the row when the statement returns exactly one, an error otherwise.
  The error object is the client library's, an input here.\<close>

definition single :: "js_error \<Rightarrow> 'a list \<Rightarrow> js_error + 'a" where
  "single e rows = (case rows of [r] \<Rightarrow> Inr r | _ \<Rightarrow> Inl e)"

definition fetchDocuments :: "js_error option \<Rightarrow> db \<times> DocumentState \<Rightarrow> db \<times> DocumentState" where
  "fetchDocuments fault w =
     (let (d, s) = w;
          s1 = s\<lparr>loading := True, error := None\<rparr>
      in case fault of
           Some e \<Rightarrow>
             (d, s1\<lparr>error := Some (error_message ''Failed to fetch documents'' e),
                    loading := False\<rparr>)
         | None \<Rightarrow>
             (d, s1\<lparr>documents := order_by_desc doc_updated_at (tbl_documents d),
                    loading := False\<rparr>))"

definition fetchDocument ::
  "js_error option \<Rightarrow> js_error \<Rightarrow> uuid \<Rightarrow> db \<times> DocumentState \<Rightarrow> db \<times> DocumentState" where
  "fetchDocument fault row_count_error i w =
     (let (d, s) = w;
          s1 = s\<lparr>loading := True, error := None\<rparr>
      in case (case fault of
                 Some e \<Rightarrow> Inl e
               | None \<Rightarrow> single row_count_error (filter (\<lambda>r. doc_id r = i) (tbl_documents d))) of
           Inl e \<Rightarrow>
             (d, s1\<lparr>error := Some (error_message ''Failed to fetch document'' e),
                    loading := False\<rparr>)
         | Inr data \<Rightarrow> (d, s1\<lparr>currentDocument := Some data, loading := False\<rparr>))"

definition clearError :: "db \<times> DocumentState \<Rightarrow> db \<times> DocumentState" where
  "clearError w = (fst w, (snd w)\<lparr>error := None\<rparr>)"

definition clearVersions :: "db \<times> DocumentState \<Rightarrow> db \<times> DocumentState" where
  "clearVersions w = (fst w, (snd w)\<lparr>versions := []\<rparr>)"

text \<open>\<^verbatim>\<open>Partial<Document>\<close>, with the two fields the callers pass: each is absent
  or carries a value, and the value of \<^verbatim>\<open>content\<close> is the one of a nullable column.\<close>

record updates =
  upd_title :: "string option"
  upd_content :: "string option option"

text \<open>The spread \<^verbatim>\<open>{ ...doc, ...updates, updated_at: new Date().toISOString() }\<close>.\<close>

definition merge_updates :: "updates \<Rightarrow> timestamp \<Rightarrow> document \<Rightarrow> document" where
  "merge_updates u t doc =
     doc\<lparr>doc_title := (case upd_title u of None \<Rightarrow> doc_title doc | Some x \<Rightarrow> x),
         doc_content := (case upd_content u of None \<Rightarrow> doc_content doc | Some x \<Rightarrow> x),
         doc_updated_at := t\<rparr>"

record create_env =
  c_user :: "uuid option"
  c_fault :: "js_error option"
  c_now :: timestamp

text \<open>\<^verbatim>\<open>createDocument\<close> resolves with the new id or rejects with what it caught.\<close>

definition createDocument ::
  "create_env \<Rightarrow> string \<Rightarrow> db \<times> DocumentState \<Rightarrow> (js_error + uuid) \<times> db \<times> DocumentState" where
  "createDocument env title w =
     (let (d, s) = w;
          s1 = s\<lparr>loading := True, error := None\<rparr>;
          failed = (\<lambda>e. (Inl e, d,
                     s1\<lparr>error := Some (error_message ''Failed to create document'' e),
                        loading := False\<rparr>))
      in case c_user env of
           None \<Rightarrow> failed (Error ''User not authenticated'')
         | Some uid \<Rightarrow>
             (case c_fault env of
                Some e \<Rightarrow> failed e
              | None \<Rightarrow>
                  (let (data, d') = insert_document (c_now env) title (Some []) uid d in
                   (Inr (doc_id data), d',
                    s1\<lparr>documents := data # documents s1, loading := False\<rparr>))))"

record update_env =
  u_fault :: "js_error option"
  u_now :: timestamp
  u_date_request :: timestamp
  u_date_current :: timestamp
  u_date_list :: timestamp

definition updateDocument ::
  "update_env \<Rightarrow> uuid \<Rightarrow> updates \<Rightarrow> db \<times> DocumentState \<Rightarrow> db \<times> DocumentState" where
  "updateDocument env i u w =
     (let (d, s) = w in
      case u_fault env of
        Some e \<Rightarrow> (d, s\<lparr>error := Some (error_message ''Failed to update document'' e)\<rparr>)
      | None \<Rightarrow>
          (let d' = update_documents (u_now env)
                      \<lparr>set_title = upd_title u, set_content = upd_content u,
                        set_updated_at = u_date_request env\<rparr> i d;
               s1 = (case currentDocument s of
                       None \<Rightarrow> s
                     | Some currentDoc \<Rightarrow>
                         if doc_id currentDoc = i
                         then s\<lparr>currentDocument :=
                                  Some (merge_updates u (u_date_current env) currentDoc)\<rparr>
                         else s);
               s2 = s1\<lparr>documents :=
                         map (\<lambda>doc. if doc_id doc = i
                                     then merge_updates u (u_date_list env) doc else doc)
                           (documents s1)\<rparr>
           in (d', s2)))"

definition deleteDocument ::
  "js_error option \<Rightarrow> uuid \<Rightarrow> db \<times> DocumentState \<Rightarrow> db \<times> DocumentState" where
  "deleteDocument fault i w =
     (let (d, s) = w;
          s1 = s\<lparr>loading := True, error := None\<rparr>
      in case fault of
           Some e \<Rightarrow>
             (d, s1\<lparr>error := Some (error_message ''Failed to delete document'' e),
                    loading := False\<rparr>)
         | None \<Rightarrow>
             (let d' = delete_documents i d;
                  s2 = s1\<lparr>documents := filter (\<lambda>doc. doc_id doc \<noteq> i) (documents s1),
                          loading := False\<rparr>;
                  s3 = (case currentDocument s2 of
                          None \<Rightarrow> s2
                        | Some currentDoc \<Rightarrow>
                            if doc_id currentDoc = i then s2\<lparr>currentDocument := None\<rparr> else s2)
              in (d', s3)))"

text \<open>
  The embedded select \<^verbatim>\<open>user_email:user_id(email)\<close> joins each version with its user:
  \<open>h_users\<close> gives \<open>None\<close> where the join finds no row, \<open>Some None\<close> where the email is
  NULL. \<^verbatim>\<open>version.user_email?.email || 'Unknown user'\<close> falls back on all of these and
  on the empty string.
\<close>

record history_env =
  h_fault :: "js_error option"
  h_users :: "uuid \<Rightarrow> string option option"

definition display_email :: "string option option \<Rightarrow> string" where
  "display_email joined =
     (case joined of
        Some (Some email) \<Rightarrow> if email = [] then ''Unknown user'' else email
      | _ \<Rightarrow> ''Unknown user'')"

definition fetchVersionHistory ::
  "history_env \<Rightarrow> uuid \<Rightarrow> db \<times> DocumentState \<Rightarrow> db \<times> DocumentState" where
  "fetchVersionHistory env documentId w =
     (let (d, s) = w;
          s1 = s\<lparr>versionsLoading := True, error := None\<rparr>
      in case h_fault env of
           Some e \<Rightarrow>
             (d, s1\<lparr>error := Some (error_message ''Failed to fetch version history'' e),
                    versionsLoading := False\<rparr>)
         | None \<Rightarrow>
             (let data = select_versions_by_document documentId d;
                  vs = map (\<lambda>version.
                         document_version.extend version
                           (DocumentVersion.fields
                              (display_email (h_users env (ver_user_id version))))) data
              in (d, s1\<lparr>versions := vs, versionsLoading := False\<rparr>)))"

record restore_env =
  r_fetch_fault :: "js_error option"
  r_row_count_error :: js_error
  r_update_fault :: "js_error option"
  r_update_now :: timestamp
  r_date_request :: timestamp
  r_user :: "uuid option"
  r_insert_fault :: "js_error option"
  r_insert_now :: timestamp
  r_date_current :: timestamp
  r_date_list :: timestamp
  r_history :: history_env

text \<open>
  \<^verbatim>\<open>restoreVersion\<close>. The insert of the \<^verbatim>\<open>restored\<close> version is awaited and its
  answer is dropped: whether the service reports a fault or the foreign key rejects the
  row, the function goes on. The last line starts \<^verbatim>\<open>fetchVersionHistory\<close> without
  awaiting it; the model runs it to its end.
\<close>

definition restoreVersion ::
  "restore_env \<Rightarrow> uuid \<Rightarrow> uuid \<Rightarrow> db \<times> DocumentState \<Rightarrow> db \<times> DocumentState" where
  "restoreVersion env documentId versionId w =
     (let (d, s) = w;
          s1 = s\<lparr>loading := True, error := None\<rparr>;
          failed = (\<lambda>e. (d, s1\<lparr>error := Some (error_message ''Failed to restore version'' e),
                                 loading := False\<rparr>))
      in case (case r_fetch_fault env of
                 Some e \<Rightarrow> Inl e
               | None \<Rightarrow> single (r_row_count_error env) (select_version_by_id versionId d)) of
           Inl versionError \<Rightarrow> failed versionError
         | Inr version \<Rightarrow>
             (case r_update_fault env of
                Some updateError \<Rightarrow> failed updateError
              | None \<Rightarrow>
                  (let d1 = update_documents (r_update_now env)
                              \<lparr>set_title = Some (ver_title version),
                                set_content = Some (ver_content version),
                                set_updated_at = r_date_request env\<rparr> documentId d;
                       d2 = (case r_user env of
                               None \<Rightarrow> d1
                             | Some uid \<Rightarrow>
                                 (case r_insert_fault env of
                                    Some _ \<Rightarrow> d1
                                  | None \<Rightarrow>
                                      (case insert_document_version (r_insert_now env) documentId
                                              (ver_title version) (ver_content version) restored
                                              uid d1 of
                                         None \<Rightarrow> d1
                                       | Some d' \<Rightarrow> d')));
                       s2 = (case currentDocument s1 of
                               None \<Rightarrow> s1
                             | Some currentDoc \<Rightarrow>
                                 if doc_id currentDoc = documentId
                                 then s1\<lparr>currentDocument :=
                                          Some (currentDoc\<lparr>doc_title := ver_title version,
                                                  doc_content := ver_content version,
                                                  doc_updated_at := r_date_current env\<rparr>)\<rparr>
                                 else s1);
                       s3 = s2\<lparr>documents :=
                                 map (\<lambda>doc. if doc_id doc = documentId
                                             then doc\<lparr>doc_title := ver_title version,
                                                    doc_content := ver_content version,
                                                    doc_updated_at := r_date_list env\<rparr>
                                             else doc) (documents s2),
                               loading := False\<rparr>
                   in fetchVersionHistory (r_history env) documentId (d2, s3))))"

text \<open>A restore in which the user is known and every storage call is accepted.\<close>

definition storage_ok :: "restore_env \<Rightarrow> uuid \<Rightarrow> bool" where
  "storage_ok env uid =
     (r_fetch_fault env = None \<and> r_update_fault env = None \<and> r_user env = Some uid \<and>
      r_insert_fault env = None)"

section \<open>The dashboard: \<^verbatim>\<open>handleCreateDocument\<close>\<close>

text \<open>
  \<^verbatim>\<open>String.prototype.trim\<close> removes white space and line terminators from both ends.
  A \<open>char\<close> is a code unit below 256; the white space of JavaScript in that range is
  TAB, LF, VT, FF, CR, SPACE and NBSP.
\<close>

definition is_js_whitespace :: "char \<Rightarrow> bool" where
  "is_js_whitespace c = (of_char c \<in> {9, 10, 11, 12, 13, 32, 160 :: nat})"

definition js_trim :: "string \<Rightarrow> string" where
  "js_trim s = rev (dropWhile is_js_whitespace (rev (dropWhile is_js_whitespace s)))"

record DashboardPage =
  newDocTitle :: string
  isCreating :: bool
  navigated :: "uuid option"

definition handleCreateDocument ::
  "create_env \<Rightarrow> DashboardPage \<times> db \<times> DocumentState \<Rightarrow> DashboardPage \<times> db \<times> DocumentState" where
  "handleCreateDocument env pw =
     (let (p, w) = pw in
      if js_trim (newDocTitle p) = [] then (p, w)
      else
        (case createDocument env (js_trim (newDocTitle p)) w of
           (Inr docId, w') \<Rightarrow>
             (p\<lparr>newDocTitle := [], isCreating := False, navigated := Some docId\<rparr>, w')
         | (Inl e, w') \<Rightarrow> (p, w')))"

section \<open>Reachable states\<close>

text \<open>
  The last statement of the migration gives every document that has no version a
  \<^verbatim>\<open>created\<close> one, dated as the document.
\<close>

definition initial_versions :: "db \<Rightarrow> db" where
  "initial_versions d =
     fold (\<lambda>r. insert_version_row (doc_created_at r) (doc_id r) (doc_title r) (doc_content r)
                 created (doc_user_id r))
       (filter (\<lambda>r. doc_id r \<notin> set (map ver_document_id (tbl_document_versions d)))
          (tbl_documents d))
       d"

definition initial_state :: DocumentState where
  "initial_state =
     \<lparr>documents = [], currentDocument = None, versions = [], loading = False,
       versionsLoading = False, error = None\<rparr>"

text \<open>The constraints of the schema: the two primary keys, with the ids so far below
  the counter, and the foreign key of \<^verbatim>\<open>document_versions\<close>.\<close>

definition primary_keys :: "db \<Rightarrow> bool" where
  "primary_keys d =
     (distinct (map doc_id (tbl_documents d)) \<and>
      distinct (map ver_id (tbl_document_versions d)) \<and>
      (\<forall>r \<in> set (tbl_documents d). doc_id r < next_uuid d) \<and>
      (\<forall>v \<in> set (tbl_document_versions d). ver_id v < next_uuid d))"

definition foreign_key :: "db \<Rightarrow> bool" where
  "foreign_key d =
     (\<forall>v \<in> set (tbl_document_versions d). ver_document_id v \<in> set (map doc_id (tbl_documents d)))"

text \<open>
  The states the application reaches: it starts when the migration has run on a
  \<^verbatim>\<open>documents\<close> table that satisfies its primary key, and every step is one of the
  store's actions, in any environment. (The restore takes the version id alone, as the
  source does: the version need not belong to the document.)
\<close>

inductive reachable :: "db \<times> DocumentState \<Rightarrow> bool" where
  migrated:
    "distinct (map doc_id docs) \<Longrightarrow> \<forall>r \<in> set docs. doc_id r < n \<Longrightarrow>
     reachable
       (initial_versions \<lparr>tbl_documents = docs, tbl_document_versions = [], next_uuid = n\<rparr>,
        initial_state)"
| create: "reachable w \<Longrightarrow> reachable (snd (createDocument cenv title w))"
| update: "reachable w \<Longrightarrow> reachable (updateDocument uenv i u w)"
| delete: "reachable w \<Longrightarrow> reachable (deleteDocument fault i w)"
| history: "reachable w \<Longrightarrow> reachable (fetchVersionHistory henv i w)"
| list: "reachable w \<Longrightarrow> reachable (fetchDocuments fault w)"
| fetch: "reachable w \<Longrightarrow> reachable (fetchDocument fault e i w)"
| clear_error: "reachable w \<Longrightarrow> reachable (clearError w)"
| clear_versions: "reachable w \<Longrightarrow> reachable (clearVersions w)"
| restore: "reachable w \<Longrightarrow> reachable (restoreVersion renv i vid w)"

text \<open>The versions of one document, in the order of their insertion.\<close>

definition versions_of :: "uuid \<Rightarrow> db \<Rightarrow> document_version list" where
  "versions_of did d = filter (\<lambda>v. ver_document_id v = did) (tbl_document_versions d)"

definition begins_created :: "document_version list \<Rightarrow> bool" where
  "begins_created vs = (case vs of [] \<Rightarrow> False | v # _ \<Rightarrow> ver_change_type v = created)"

definition first_version_created :: "db \<Rightarrow> bool" where
  "first_version_created d =
     (\<forall>r \<in> set (tbl_documents d). begins_created (versions_of (doc_id r) d))"

definition schema_invariant :: "db \<Rightarrow> bool" where
  "schema_invariant d = (primary_keys d \<and> foreign_key d \<and> first_version_created d)"

section \<open>A worked scenario\<close>

text \<open>
  The end-to-end scenario of the specification, run on the model: create ``Draft'', edit
  the content to ``Hello'', rename to ``Final'', restore the first version. The witnesses
  below evaluate the operations on these states.
\<close>

definition ok_create :: create_env where
  "ok_create = \<lparr>c_user = Some 7, c_fault = None, c_now = 100\<rparr>"

definition ok_update :: "timestamp \<Rightarrow> update_env" where
  "ok_update t =
     \<lparr>u_fault = None, u_now = t, u_date_request = t, u_date_current = t, u_date_list = t\<rparr>"

definition ok_history :: history_env where
  "ok_history =
     \<lparr>h_fault = None,
       h_users = (\<lambda>u. if u = 7 then Some (Some ''ann@example.org'') else None)\<rparr>"

definition ok_restore :: "timestamp \<Rightarrow> restore_env" where
  "ok_restore t =
     \<lparr>r_fetch_fault = None, r_row_count_error = NonError, r_update_fault = None,
       r_update_now = t, r_date_request = t, r_user = Some 7, r_insert_fault = None,
       r_insert_now = t, r_date_current = t, r_date_list = t, r_history = ok_history\<rparr>"

definition scenario_0 :: "db \<times> DocumentState" where
  "scenario_0 =
     (initial_versions \<lparr>tbl_documents = [], tbl_document_versions = [], next_uuid = 0\<rparr>,
      initial_state)"

definition scenario_1 :: "db \<times> DocumentState" where
  "scenario_1 = snd (createDocument ok_create ''Draft'' scenario_0)"

definition scenario_2 :: "db \<times> DocumentState" where
  "scenario_2 =
     updateDocument (ok_update 200) 0
       \<lparr>upd_title = Some ''Draft'', upd_content = Some (Some ''Hello'')\<rparr> scenario_1"

definition scenario_3 :: "db \<times> DocumentState" where
  "scenario_3 =
     updateDocument (ok_update 300) 0
       \<lparr>upd_title = Some ''Final'', upd_content = Some (Some ''Hello'')\<rparr> scenario_2"

text \<open>The document and the version that the restore of the scenario is about, and the
  two restores.\<close>

definition live_document :: document where
  "live_document =
     \<lparr>doc_id = 0, doc_title = ''Final'', doc_content = Some ''Hello'', doc_created_at = 100,
       doc_updated_at = 300, doc_user_id = 7\<rparr>"

definition first_version :: document_version where
  "first_version =
     \<lparr>ver_id = 1, ver_document_id = 0, ver_title = ''Draft'', ver_content = Some [],
       ver_change_type = created, ver_user_id = 7, ver_created_at = 100\<rparr>"

definition scenario_4 :: "db \<times> DocumentState" where
  "scenario_4 = restoreVersion (ok_restore 400) 0 1 scenario_3"

definition scenario_5 :: "db \<times> DocumentState" where
  "scenario_5 = restoreVersion (ok_restore 500) 0 1 scenario_4"

section \<open>The document page: auto-save\<close>

text \<open>
  The closure that \<^verbatim>\<open>setTimeout\<close> holds: \<^verbatim>\<open>saveDocument\<close> as the render that
  started the timer built it, with that render's title, content and current document,
  and the time from which the runtime may call it.
\<close>

record timeout =
  deadline :: timestamp
  saved_title :: string
  saved_content :: "string option"
  saved_document :: document

record DocumentPage =
  route_id :: uuid
  title :: string
  content :: "string option"
  timeoutId :: "timeout option"
  isSaving :: bool

text \<open>The auto-save effect: no timer without a current document, otherwise a timer of
  one second. React runs it again, after the clean-up that clears the old timer, when
  the title, the content or the current document has changed.\<close>

definition auto_save_effect ::
  "timestamp \<Rightarrow> string \<Rightarrow> string option \<Rightarrow> document option \<Rightarrow> timeout option" where
  "auto_save_effect now t c currentDoc =
     (case currentDoc of
        None \<Rightarrow> None
      | Some doc \<Rightarrow>
          Some \<lparr>deadline = now + 1000, saved_title = t, saved_content = c,
                 saved_document = doc\<rparr>)"

text \<open>\<^verbatim>\<open>saveDocument()\<close> as the timer calls it, without arguments: \<open>None\<close> when it
  returns before the write, otherwise the updates it passes to \<^verbatim>\<open>updateDocument\<close>.
  The route of the page always carries the id, and a timer is only started with a
  current document, so the first check of the function passes.\<close>

definition saveDocument :: "timeout \<Rightarrow> updates option" where
  "saveDocument tm =
     (if saved_title tm = doc_title (saved_document tm) \<and>
         saved_content tm = doc_content (saved_document tm)
      then None
      else Some \<lparr>upd_title = Some (saved_title tm), upd_content = Some (saved_content tm)\<rparr>)"

text \<open>
  What happens on the page, one event at a time. Time passes in \<open>Tick\<close>; the runtime
  calls a timer no earlier than its deadline; a write is in flight from the moment
  \<^verbatim>\<open>updateDocument\<close> is called until the storage service answers it, and writes may be
  answered in any order. The log keeps the edits that changed the page and the writes
  that were issued, with their times.
\<close>

datatype event =
    Tick nat
  | TitleChange string
  | ContentChange string
  | TimerFires
  | SaveCompletes nat update_env

datatype entry =
    Edited timestamp string "string option"
  | Wrote timestamp string "string option"

fun entry_time :: "entry \<Rightarrow> timestamp" where
  "entry_time (Edited t _ _) = t"
| "entry_time (Wrote t _ _) = t"

record page_world =
  page :: DocumentPage
  backend :: "db \<times> DocumentState"
  in_flight :: "(uuid \<times> updates) list"
  clock :: timestamp
  log :: "entry list"

definition edit :: "string \<Rightarrow> string option \<Rightarrow> page_world \<Rightarrow> page_world" where
  "edit t c w =
     (if t = title (page w) \<and> c = content (page w) then w
      else w\<lparr>page := (page w)\<lparr>title := t, content := c,
                 timeoutId := auto_save_effect (clock w) t c (currentDocument (snd (backend w)))\<rparr>,
             log := log w @ [Edited (clock w) t c]\<rparr>)"

definition timer_fires :: "page_world \<Rightarrow> page_world" where
  "timer_fires w =
     (case timeoutId (page w) of
        None \<Rightarrow> w
      | Some tm \<Rightarrow>
          if clock w < deadline tm then w
          else
            (case saveDocument tm of
               None \<Rightarrow> w\<lparr>page := (page w)\<lparr>timeoutId := None\<rparr>\<rparr>
             | Some u \<Rightarrow>
                 w\<lparr>page := (page w)\<lparr>timeoutId := None, isSaving := True\<rparr>,
                   in_flight := in_flight w @ [(route_id (page w), u)],
                   log := log w @ [Wrote (clock w) (saved_title tm) (saved_content tm)]\<rparr>))"

text \<open>
  The answer to the \<open>k\<close>-th write in flight. \<^verbatim>\<open>updateDocument\<close> replaces the current
  document by a new object when the update succeeded and the ids agree; then the effect
  that loads the document into the page sets title and content from it, and the
  auto-save effect starts a new timer. In the other cases the page keeps its timer.
\<close>

definition save_completes :: "nat \<Rightarrow> update_env \<Rightarrow> page_world \<Rightarrow> page_world" where
  "save_completes k env w =
     (if length (in_flight w) \<le> k then w
      else
        (let (i, u) = in_flight w ! k;
             b = updateDocument env i u (backend w);
             replaced = (u_fault env = None \<and>
                         (case currentDocument (snd (backend w)) of
                            None \<Rightarrow> False
                          | Some currentDoc \<Rightarrow> doc_id currentDoc = i));
             p = (case currentDocument (snd b) of
                    None \<Rightarrow> page w
                  | Some currentDoc \<Rightarrow>
                      if replaced
                      then (page w)\<lparr>title := doc_title currentDoc,
                             content := doc_content currentDoc,
                             timeoutId := auto_save_effect (clock w) (doc_title currentDoc)
                                            (doc_content currentDoc) (Some currentDoc)\<rparr>
                      else page w)
         in w\<lparr>page := p\<lparr>isSaving := False\<rparr>, backend := b,
               in_flight := take k (in_flight w) @ drop (Suc k) (in_flight w)\<rparr>))"

fun step :: "event \<Rightarrow> page_world \<Rightarrow> page_world" where
  "step (Tick n) w = w\<lparr>clock := clock w + n\<rparr>"
| "step (TitleChange t) w = edit t (content (page w)) w"
| "step (ContentChange c) w = edit (title (page w)) (Some c) w"
| "step TimerFires w = timer_fires w"
| "step (SaveCompletes k env) w = save_completes k env w"

text \<open>The page once the document is loaded: title and content are the document's, and the
  auto-save effect has run.\<close>

definition opened :: "uuid \<Rightarrow> timestamp \<Rightarrow> db \<times> DocumentState \<Rightarrow> page_world" where
  "opened i now b =
     \<lparr>page =
        (case currentDocument (snd b) of
           None \<Rightarrow> \<lparr>route_id = i, title = [], content = Some [], timeoutId = None,
                     isSaving = False\<rparr>
         | Some currentDoc \<Rightarrow>
             \<lparr>route_id = i, title = doc_title currentDoc, content = doc_content currentDoc,
               timeoutId = auto_save_effect now (doc_title currentDoc) (doc_content currentDoc)
                             (Some currentDoc),
               isSaving = False\<rparr>),
      backend = b, in_flight = [], clock = now, log = []\<rparr>"

definition run :: "event list \<Rightarrow> page_world \<Rightarrow> page_world" where
  "run evs w = fold step evs w"

text \<open>The shape of a log in which every write is debounced: the entry before a write is
  the edit that produced what the write carries, made a second or more before, and no
  entry before that edit is later than it.\<close>

definition debounced :: "entry list \<Rightarrow> bool" where
  "debounced l =
     (\<forall>xs t ti co ys. l = xs @ Wrote t ti co # ys \<longrightarrow>
        (\<exists>zs t'. xs = zs @ [Edited t' ti co] \<and> t' + 1000 \<le> t \<and>
                  (\<forall>e \<in> set zs. entry_time e \<le> t')))"

text \<open>What holds of the page after any events: the pending timer's closure is the page's
  title and content and the store's current document; no entry of the log is later than
  the clock, and the log is in the order of time; a pending timer that would write was
  started by the last entry of the log, an edit.\<close>

definition page_invariant :: "page_world \<Rightarrow> bool" where
  "page_invariant w =
     ((\<forall>tm. timeoutId (page w) = Some tm \<longrightarrow>
          saved_title tm = title (page w) \<and> saved_content tm = content (page w) \<and>
          currentDocument (snd (backend w)) = Some (saved_document tm)) \<and>
      (\<forall>e \<in> set (log w). entry_time e \<le> clock w) \<and>
      sorted_wrt (\<lambda>a b. entry_time a \<le> entry_time b) (log w) \<and>
      (\<forall>tm. timeoutId (page w) = Some tm \<and> saveDocument tm \<noteq> None \<longrightarrow>
          (\<exists>zs t'. log w = zs @ [Edited t' (title (page w)) (content (page w))] \<and>
                    t' + 1000 \<le> deadline tm)) \<and>
      debounced (log w))"

text \<open>A run of the page: two edits, a timer that is called too early, the write, its
  answer, and the timer that follows the answer.\<close>

definition page_scenario :: page_world where
  "page_scenario = opened 0 150 (fetchDocument None NonError 0 scenario_1)"

definition page_events :: "event list" where
  "page_events =
     [TitleChange ''Draft 2'', Tick 400, ContentChange ''Hi'', Tick 999, TimerFires, Tick 1,
      TimerFires, SaveCompletes 0 (ok_update 1600), Tick 1000, TimerFires]"

text \<open>A run in which the user goes on typing while a write is in flight: the write of
  ``a'' is issued, two edits follow within a tenth of a second of each other, the write
  is answered, and a minute passes.\<close>

definition burst_events :: "event list" where
  "burst_events =
     [ContentChange ''a'', Tick 1000, TimerFires,
      Tick 100, ContentChange ''ab'', Tick 100, ContentChange ''abc'',
      Tick 200, SaveCompletes 0 (ok_update 1550),
      Tick 1000, TimerFires, Tick 60000, TimerFires]"

section \<open>Properties of the storage statements\<close>

lemma tbl_document_versions_insert_version_row:
  "tbl_document_versions (insert_version_row now did t c ct uid d) =
     tbl_document_versions d @
       [\<lparr>ver_id = next_uuid d, ver_document_id = did, ver_title = t, ver_content = c,
         ver_change_type = ct, ver_user_id = uid, ver_created_at = now\<rparr>]"
  by (simp add: insert_version_row_def gen_random_uuid_def)

lemma tbl_documents_insert_version_row:
  "tbl_documents (insert_version_row now did t c ct uid d) = tbl_documents d"
  by (simp add: insert_version_row_def gen_random_uuid_def)

lemma next_uuid_insert_version_row:
  "next_uuid (insert_version_row now did t c ct uid d) = Suc (next_uuid d)"
  by (simp add: insert_version_row_def gen_random_uuid_def)

lemmas insert_version_row_simps =
  tbl_document_versions_insert_version_row tbl_documents_insert_version_row
  next_uuid_insert_version_row

subsection \<open>What one firing of the trigger appends\<close>

lemma tbl_documents_create_document_version:
  "tbl_documents (create_document_version op OLD NEW now d) = tbl_documents d"
  by (simp add: create_document_version_def insert_version_row_simps split: option.split)

lemma tbl_document_versions_create_document_version:
  "tbl_document_versions (create_document_version op OLD NEW now d) =
     tbl_document_versions d @
       (case change_type_val op OLD NEW of
          None \<Rightarrow> []
        | Some ct \<Rightarrow>
            [\<lparr>ver_id = next_uuid d, ver_document_id = doc_id NEW, ver_title = doc_title NEW,
              ver_content = doc_content NEW, ver_change_type = ct,
              ver_user_id = doc_user_id NEW, ver_created_at = now\<rparr>])"
  by (simp add: create_document_version_def insert_version_row_simps split: option.split)

lemma next_uuid_create_document_version:
  "next_uuid (create_document_version op OLD NEW now d) =
     next_uuid d + (case change_type_val op OLD NEW of None \<Rightarrow> 0 | Some ct \<Rightarrow> 1)"
  by (simp add: create_document_version_def insert_version_row_simps split: option.split)

subsection \<open>The update statement\<close>

lemma fold_trigger_documents:
  "tbl_documents (fold (\<lambda>r. create_document_version UPDATE r (f r) now) rows d) = tbl_documents d"
  by (induction rows arbitrary: d) (simp_all add: tbl_documents_create_document_version)

lemma fold_trigger_appends:
  "\<exists>new. tbl_document_versions (fold (\<lambda>r. create_document_version UPDATE r (f r) now) rows d) =
          tbl_document_versions d @ new"
proof (induction rows arbitrary: d)
  case Nil
  show ?case by simp
next
  case (Cons r rows)
  obtain new where
    "tbl_document_versions
       (fold (\<lambda>r. create_document_version UPDATE r (f r) now) rows
          (create_document_version UPDATE r (f r) now d)) =
     tbl_document_versions (create_document_version UPDATE r (f r) now d) @ new"
    using Cons.IH by blast
  then show ?case
    by (simp add: tbl_document_versions_create_document_version)
qed

lemma tbl_documents_update_documents:
  "tbl_documents (update_documents now a i d) =
     map (\<lambda>r. if doc_id r = i then update_updated_at_column now (apply_set a r) else r)
       (tbl_documents d)"
  by (simp add: update_documents_def Let_def fold_trigger_documents)

lemma update_documents_appends:
  "\<exists>new. tbl_document_versions (update_documents now a i d) = tbl_document_versions d @ new"
  using fold_trigger_appends [of _ now _ "d\<lparr>tbl_documents := _\<rparr>"]
  by (simp add: update_documents_def Let_def)

lemma doc_id_new_row [simp]:
  "doc_id (update_updated_at_column now (apply_set a r)) = doc_id r"
  by (simp add: update_updated_at_column_def apply_set_def)

lemma filter_key_distinct:
  "distinct (map f xs) \<Longrightarrow> x \<in> set xs \<Longrightarrow> filter (\<lambda>y. f y = f x) xs = [x]"
proof (induction xs)
  case Nil
  then show ?case by simp
next
  case (Cons y ys)
  show ?case
  proof (cases "y = x")
    case True
    have "f x \<notin> f ` set ys"
      using Cons.prems True by simp
    then have "filter (\<lambda>z. f z = f x) ys = []"
      unfolding filter_empty_conv by (metis imageI)
    with True show ?thesis by simp
  next
    case False
    with Cons.prems have "x \<in> set ys" "f y \<noteq> f x" by auto
    with Cons show ?thesis by simp
  qed
qed

lemma filter_key_absent:
  "k \<notin> set (map f xs) \<Longrightarrow> filter (\<lambda>y. f y = k) xs = []"
  by (auto simp: filter_empty_conv)

text \<open>With the primary key in force the statement rewrites one row and fires the trigger once.\<close>

lemma update_documents_one_row:
  assumes "distinct (map doc_id (tbl_documents d))" and "r \<in> set (tbl_documents d)"
  shows "update_documents now a (doc_id r) d =
           create_document_version UPDATE r (update_updated_at_column now (apply_set a r)) now
             (d\<lparr>tbl_documents :=
                  map (\<lambda>x. if doc_id x = doc_id r
                            then update_updated_at_column now (apply_set a x) else x)
                    (tbl_documents d)\<rparr>)"
  using filter_key_distinct [OF assms]
  by (simp add: update_documents_def Let_def)

lemma update_documents_no_row:
  assumes "i \<notin> set (map doc_id (tbl_documents d))"
  shows "update_documents now a i d = d"
proof -
  have "map (\<lambda>x. if doc_id x = i then update_updated_at_column now (apply_set a x) else x)
          (tbl_documents d) = tbl_documents d"
    using assms by (intro map_idI) auto
  then show ?thesis
    using filter_key_absent [OF assms] by (simp add: update_documents_def Let_def)
qed

section \<open>The scenario, evaluated\<close>

lemmas store_defs =
  createDocument_def updateDocument_def deleteDocument_def restoreVersion_def
  fetchVersionHistory_def insert_document_def update_documents_def delete_documents_def
  insert_document_version_def insert_version_row_def gen_random_uuid_def
  create_document_version_def change_type_val_def sql_ne_def sql_and_def is_true_def
  apply_set_def update_updated_at_column_def merge_updates_def select_version_by_id_def
  select_versions_by_document_def single_def error_message_def display_email_def
  initial_versions_def Let_def

lemma scenario_0_eq:
  "scenario_0 =
     (\<lparr>tbl_documents = [], tbl_document_versions = [], next_uuid = 0\<rparr>, initial_state)"
  by (simp add: scenario_0_def initial_versions_def)

lemma scenario_1_eq:
  "scenario_1 =
     (\<lparr>tbl_documents =
         [\<lparr>doc_id = 0, doc_title = ''Draft'', doc_content = Some [], doc_created_at = 100,
            doc_updated_at = 100, doc_user_id = 7\<rparr>],
       tbl_document_versions =
         [\<lparr>ver_id = 1, ver_document_id = 0, ver_title = ''Draft'', ver_content = Some [],
            ver_change_type = created, ver_user_id = 7, ver_created_at = 100\<rparr>],
       next_uuid = 2\<rparr>,
      initial_state\<lparr>documents :=
         [\<lparr>doc_id = 0, doc_title = ''Draft'', doc_content = Some [], doc_created_at = 100,
            doc_updated_at = 100, doc_user_id = 7\<rparr>]\<rparr>)"
  by (simp add: scenario_1_def scenario_0_eq ok_create_def initial_state_def store_defs)

lemma scenario_2_eq:
  "scenario_2 =
     (\<lparr>tbl_documents =
         [\<lparr>doc_id = 0, doc_title = ''Draft'', doc_content = Some ''Hello'',
            doc_created_at = 100, doc_updated_at = 200, doc_user_id = 7\<rparr>],
       tbl_document_versions =
         [\<lparr>ver_id = 1, ver_document_id = 0, ver_title = ''Draft'', ver_content = Some [],
            ver_change_type = created, ver_user_id = 7, ver_created_at = 100\<rparr>,
          \<lparr>ver_id = 2, ver_document_id = 0, ver_title = ''Draft'', ver_content = Some ''Hello'',
            ver_change_type = content_modified, ver_user_id = 7, ver_created_at = 200\<rparr>],
       next_uuid = 3\<rparr>,
      initial_state\<lparr>documents :=
         [\<lparr>doc_id = 0, doc_title = ''Draft'', doc_content = Some ''Hello'',
            doc_created_at = 100, doc_updated_at = 200, doc_user_id = 7\<rparr>]\<rparr>)"
  by (simp add: scenario_2_def scenario_1_eq ok_update_def initial_state_def store_defs)

lemma scenario_3_eq:
  "scenario_3 =
     (\<lparr>tbl_documents =
         [\<lparr>doc_id = 0, doc_title = ''Final'', doc_content = Some ''Hello'',
            doc_created_at = 100, doc_updated_at = 300, doc_user_id = 7\<rparr>],
       tbl_document_versions =
         [\<lparr>ver_id = 1, ver_document_id = 0, ver_title = ''Draft'', ver_content = Some [],
            ver_change_type = created, ver_user_id = 7, ver_created_at = 100\<rparr>,
          \<lparr>ver_id = 2, ver_document_id = 0, ver_title = ''Draft'', ver_content = Some ''Hello'',
            ver_change_type = content_modified, ver_user_id = 7, ver_created_at = 200\<rparr>,
          \<lparr>ver_id = 3, ver_document_id = 0, ver_title = ''Final'', ver_content = Some ''Hello'',
            ver_change_type = title_updated, ver_user_id = 7, ver_created_at = 300\<rparr>],
       next_uuid = 4\<rparr>,
      initial_state\<lparr>documents :=
         [\<lparr>doc_id = 0, doc_title = ''Final'', doc_content = Some ''Hello'',
            doc_created_at = 100, doc_updated_at = 300, doc_user_id = 7\<rparr>]\<rparr>)"
  by (simp add: scenario_3_def scenario_2_eq ok_update_def initial_state_def store_defs)

lemma reachable_scenario_3: "reachable scenario_3"
  unfolding scenario_3_def scenario_2_def scenario_1_def scenario_0_def
  by (intro reachable.update reachable.create reachable.migrated) simp_all

lemma fst_scenario_4:
  "fst scenario_4 =
     \<lparr>tbl_documents =
        [\<lparr>doc_id = 0, doc_title = ''Draft'', doc_content = Some [], doc_created_at = 100,
           doc_updated_at = 400, doc_user_id = 7\<rparr>],
      tbl_document_versions =
        [\<lparr>ver_id = 1, ver_document_id = 0, ver_title = ''Draft'', ver_content = Some [],
           ver_change_type = created, ver_user_id = 7, ver_created_at = 100\<rparr>,
         \<lparr>ver_id = 2, ver_document_id = 0, ver_title = ''Draft'', ver_content = Some ''Hello'',
           ver_change_type = content_modified, ver_user_id = 7, ver_created_at = 200\<rparr>,
         \<lparr>ver_id = 3, ver_document_id = 0, ver_title = ''Final'', ver_content = Some ''Hello'',
           ver_change_type = title_updated, ver_user_id = 7, ver_created_at = 300\<rparr>,
         \<lparr>ver_id = 4, ver_document_id = 0, ver_title = ''Draft'', ver_content = Some [],
           ver_change_type = content_modified, ver_user_id = 7, ver_created_at = 400\<rparr>,
         \<lparr>ver_id = 5, ver_document_id = 0, ver_title = ''Draft'', ver_content = Some [],
           ver_change_type = restored, ver_user_id = 7, ver_created_at = 400\<rparr>],
      next_uuid = 6\<rparr>"
  by (simp add: scenario_4_def scenario_3_eq ok_restore_def ok_history_def initial_state_def
      store_defs)

lemma fst_scenario_5:
  "fst scenario_5 =
     \<lparr>tbl_documents =
        [\<lparr>doc_id = 0, doc_title = ''Draft'', doc_content = Some [], doc_created_at = 100,
           doc_updated_at = 500, doc_user_id = 7\<rparr>],
      tbl_document_versions =
        tbl_document_versions (fst scenario_4) @
        [\<lparr>ver_id = 6, ver_document_id = 0, ver_title = ''Draft'', ver_content = Some [],
           ver_change_type = restored, ver_user_id = 7, ver_created_at = 500\<rparr>],
      next_uuid = 7\<rparr>"
proof -
  have "fst (restoreVersion (ok_restore 500) 0 1 (fst scenario_4, snd scenario_4)) =
          \<lparr>tbl_documents =
             [\<lparr>doc_id = 0, doc_title = ''Draft'', doc_content = Some [], doc_created_at = 100,
                doc_updated_at = 500, doc_user_id = 7\<rparr>],
           tbl_document_versions =
             tbl_document_versions (fst scenario_4) @
             [\<lparr>ver_id = 6, ver_document_id = 0, ver_title = ''Draft'', ver_content = Some [],
                ver_change_type = restored, ver_user_id = 7, ver_created_at = 500\<rparr>],
           next_uuid = 7\<rparr>"
    by (simp add: fst_scenario_4 ok_restore_def ok_history_def store_defs)
  then show ?thesis
    by (simp add: scenario_5_def)
qed

section \<open>The Version Recorder\<close>





text \<open>
  In general: on a NULL the comparison is NULL. A change of content from or to NULL is
  not recorded, and with a change of title it is recorded as a change of title.
\<close>

lemma recorder_null_content:
  "change_type_val UPDATE (OLD\<lparr>doc_content := None\<rparr>)
     (NEW\<lparr>doc_title := doc_title OLD, doc_content := c\<rparr>) = None"
  and "doc_title OLD \<noteq> doc_title NEW \<Longrightarrow>
       change_type_val UPDATE (OLD\<lparr>doc_content := None\<rparr>) NEW = Some title_updated"
  by (simp_all add: change_type_val_def sql_ne_def sql_and_def is_true_def)

section \<open>The constraints of the schema hold in every reachable state\<close>

lemma begins_created_append: "begins_created xs \<Longrightarrow> begins_created (xs @ ys)"
  by (cases xs) (simp_all add: begins_created_def)

lemma versions_of_insert_version_row:
  "versions_of j (insert_version_row now did t c ct uid d) =
     versions_of j d @
       (if did = j
        then [\<lparr>ver_id = next_uuid d, ver_document_id = did, ver_title = t, ver_content = c,
                ver_change_type = ct, ver_user_id = uid, ver_created_at = now\<rparr>]
        else [])"
  by (simp add: versions_of_def insert_version_row_simps)

lemma primary_keys_insert_version_row:
  "primary_keys d \<Longrightarrow> primary_keys (insert_version_row now did t c ct uid d)"
  by (fastforce simp: primary_keys_def insert_version_row_simps less_Suc_eq)

lemma foreign_key_insert_version_row:
  "foreign_key d \<Longrightarrow> did \<in> set (map doc_id (tbl_documents d)) \<Longrightarrow>
   foreign_key (insert_version_row now did t c ct uid d)"
  by (auto simp: foreign_key_def insert_version_row_simps)

lemma first_version_created_insert_version_row:
  "first_version_created d \<Longrightarrow> first_version_created (insert_version_row now did t c ct uid d)"
  by (simp add: first_version_created_def versions_of_insert_version_row
      tbl_documents_insert_version_row begins_created_append)

lemma schema_invariant_insert_version_row:
  "schema_invariant d \<Longrightarrow> did \<in> set (map doc_id (tbl_documents d)) \<Longrightarrow>
   schema_invariant (insert_version_row now did t c ct uid d)"
  by (simp add: schema_invariant_def primary_keys_insert_version_row
      foreign_key_insert_version_row first_version_created_insert_version_row)

lemma schema_invariant_documents_ids:
  assumes "map doc_id docs = map doc_id (tbl_documents d)"
  shows "schema_invariant (d\<lparr>tbl_documents := docs\<rparr>) = schema_invariant d"
proof -
  have "set (map doc_id docs) = set (map doc_id (tbl_documents d))"
    using assms by simp
  then have s: "doc_id ` set docs = doc_id ` set (tbl_documents d)"
    by simp
  have v: "versions_of j (d\<lparr>tbl_documents := docs\<rparr>) = versions_of j d" for j
    by (simp add: versions_of_def)
  have "(\<forall>r \<in> set docs. P (doc_id r)) = (\<forall>r \<in> set (tbl_documents d). P (doc_id r))" for P
    using s by (metis (no_types, lifting) image_iff)
  note b = this
  show ?thesis
    unfolding schema_invariant_def primary_keys_def foreign_key_def first_version_created_def
    using assms s b [of "\<lambda>i. i < next_uuid d"] b [of "\<lambda>i. begins_created (versions_of i d)"]
    by (simp add: v)
qed

lemma schema_invariant_create_document_version:
  assumes "schema_invariant d" and "doc_id NEW \<in> set (map doc_id (tbl_documents d))"
  shows "schema_invariant (create_document_version op OLD NEW now d)"
  using assms
  by (simp add: create_document_version_def schema_invariant_insert_version_row
      split: option.split)

lemma schema_invariant_update_documents:
  assumes "schema_invariant d"
  shows "schema_invariant (update_documents now a i d)"
proof (cases "i \<in> set (map doc_id (tbl_documents d))")
  case False
  then show ?thesis using assms by (simp add: update_documents_no_row)
next
  case True
  then obtain r where r: "r \<in> set (tbl_documents d)" "doc_id r = i"
    by auto
  let ?docs = "map (\<lambda>x. if doc_id x = doc_id r
                          then update_updated_at_column now (apply_set a x) else x)
                 (tbl_documents d)"
  let ?d1 = "d\<lparr>tbl_documents := ?docs\<rparr>"
  let ?NEW = "update_updated_at_column now (apply_set a r)"
  have ids: "map doc_id ?docs = map doc_id (tbl_documents d)"
    by (simp add: o_def if_distrib cong: if_cong)
  have sel: "tbl_documents ?d1 = ?docs"
    by simp
  have dist: "distinct (map doc_id (tbl_documents d))"
    using assms by (simp add: schema_invariant_def primary_keys_def)
  have inv1: "schema_invariant ?d1"
    using assms schema_invariant_documents_ids [OF ids] by simp
  have "doc_id r \<in> set (map doc_id (tbl_documents d))"
    using r(1) by simp
  then have "doc_id r \<in> set (map doc_id ?docs)"
    by (simp only: ids)
  then have mem: "doc_id ?NEW \<in> set (map doc_id (tbl_documents ?d1))"
    using sel by (simp only: doc_id_new_row)
  have "update_documents now a (doc_id r) d = create_document_version UPDATE r ?NEW now ?d1"
    by (rule update_documents_one_row [OF dist r(1)])
  moreover have "schema_invariant (create_document_version UPDATE r ?NEW now ?d1)"
    by (rule schema_invariant_create_document_version [OF inv1 mem])
  ultimately show ?thesis
    using r(2) by simp
qed

subsection \<open>Insert of a document\<close>

lemma insert_document_eq:
  "insert_document now t c uid d =
     (\<lparr>doc_id = next_uuid d, doc_title = t, doc_content = c, doc_created_at = now,
        doc_updated_at = now, doc_user_id = uid\<rparr>,
      insert_version_row now (next_uuid d) t c created uid
        (d\<lparr>next_uuid := Suc (next_uuid d),
           tbl_documents := tbl_documents d @
               [\<lparr>doc_id = next_uuid d, doc_title = t, doc_content = c, doc_created_at = now,
                  doc_updated_at = now, doc_user_id = uid\<rparr>]\<rparr>))"
  by (simp add: insert_document_def gen_random_uuid_def create_document_version_def
      change_type_val_def Let_def)

lemma versions_of_fresh:
  assumes "primary_keys d" and "foreign_key d"
  shows "versions_of (next_uuid d) d = []"
proof -
  have "ver_document_id v \<noteq> next_uuid d" if "v \<in> set (tbl_document_versions d)" for v
  proof -
    from that assms(2) obtain r where "r \<in> set (tbl_documents d)" "doc_id r = ver_document_id v"
      by (auto simp: foreign_key_def)
    with assms(1) show ?thesis
      by (auto simp: primary_keys_def)
  qed
  then show ?thesis
    by (simp add: versions_of_def filter_empty_conv)
qed

lemma schema_invariant_insert_document:
  assumes "schema_invariant d"
  shows "schema_invariant (snd (insert_document now t c uid d))"
proof -
  let ?NEW = "\<lparr>doc_id = next_uuid d, doc_title = t, doc_content = c, doc_created_at = now,
                doc_updated_at = now, doc_user_id = uid\<rparr>"
  let ?d2 = "d\<lparr>next_uuid := Suc (next_uuid d), tbl_documents := tbl_documents d @ [?NEW]\<rparr>"
  let ?d3 = "insert_version_row now (next_uuid d) t c created uid ?d2"
  have pk: "primary_keys d" and fk: "foreign_key d" and fv: "first_version_created d"
    using assms by (simp_all add: schema_invariant_def)
  have "primary_keys ?d2"
    using pk by (fastforce simp: primary_keys_def less_Suc_eq)
  then have pk3: "primary_keys ?d3"
    by (rule primary_keys_insert_version_row)
  have "foreign_key ?d2"
    using fk by (auto simp: foreign_key_def)
  then have fk3: "foreign_key ?d3"
    by (rule foreign_key_insert_version_row) simp
  have old: "versions_of (doc_id r) ?d3 = versions_of (doc_id r) d"
    if "r \<in> set (tbl_documents d)" for r
  proof -
    have "doc_id r \<noteq> next_uuid d"
      using pk that by (auto simp: primary_keys_def)
    then show ?thesis
      by (simp add: versions_of_def insert_version_row_simps)
  qed
  have "versions_of (next_uuid d) ?d2 = []"
    using versions_of_fresh [OF pk fk] by (simp add: versions_of_def)
  then have new: "begins_created (versions_of (next_uuid d) ?d3)"
    by (simp add: versions_of_insert_version_row begins_created_def)
  have fv3: "first_version_created ?d3"
    unfolding first_version_created_def
  proof
    fix r assume "r \<in> set (tbl_documents ?d3)"
    then have "r \<in> set (tbl_documents d) \<or> r = ?NEW"
      by (auto simp: tbl_documents_insert_version_row)
    then show "begins_created (versions_of (doc_id r) ?d3)"
    proof
      assume r: "r \<in> set (tbl_documents d)"
      then have "begins_created (versions_of (doc_id r) d)"
        using fv by (simp add: first_version_created_def)
      then show ?thesis by (simp only: old [OF r])
    next
      assume "r = ?NEW"
      then show ?thesis using new by simp
    qed
  qed
  show ?thesis
    using pk3 fk3 fv3 by (simp add: insert_document_eq schema_invariant_def)
qed

subsection \<open>Delete with its cascade\<close>

lemma delete_documents_eq:
  "delete_documents i d =
     (if i \<in> set (map doc_id (tbl_documents d))
      then d\<lparr>tbl_documents := filter (\<lambda>r. doc_id r \<noteq> i) (tbl_documents d),
             tbl_document_versions :=
               filter (\<lambda>v. ver_document_id v \<noteq> i) (tbl_document_versions d)\<rparr>
      else d)"
proof (cases "i \<in> set (map doc_id (tbl_documents d))")
  case True
  then have "set (map doc_id (filter (\<lambda>r. doc_id r = i) (tbl_documents d))) = {i}"
    by auto
  then show ?thesis
    using True by (simp add: delete_documents_def del: set_map set_filter)
next
  case False
  then have "filter (\<lambda>r. doc_id r = i) (tbl_documents d) = []"
    by (rule filter_key_absent)
  moreover have "filter (\<lambda>r. doc_id r \<noteq> i) (tbl_documents d) = tbl_documents d"
    using False by (auto simp: filter_id_conv)
  ultimately show ?thesis
    using False by (simp add: delete_documents_def)
qed

lemma schema_invariant_delete_documents:
  assumes "schema_invariant d"
  shows "schema_invariant (delete_documents i d)"
proof (cases "i \<in> set (map doc_id (tbl_documents d))")
  case False
  then show ?thesis using assms by (simp add: delete_documents_eq)
next
  case True
  let ?d' = "d\<lparr>tbl_documents := filter (\<lambda>r. doc_id r \<noteq> i) (tbl_documents d),
              tbl_document_versions :=
                filter (\<lambda>v. ver_document_id v \<noteq> i) (tbl_document_versions d)\<rparr>"
  have pk: "primary_keys d" and fk: "foreign_key d" and fv: "first_version_created d"
    using assms by (simp_all add: schema_invariant_def)
  have "primary_keys ?d'"
    using pk by (simp add: primary_keys_def distinct_map_filter)
  moreover have "foreign_key ?d'"
    using fk by (auto simp: foreign_key_def)
  moreover have "first_version_created ?d'"
    unfolding first_version_created_def
  proof
    fix r assume "r \<in> set (tbl_documents ?d')"
    then have r: "r \<in> set (tbl_documents d)" "doc_id r \<noteq> i"
      by simp_all
    have "versions_of (doc_id r) ?d' = versions_of (doc_id r) d"
      using r(2) by (auto simp: versions_of_def intro: filter_cong)
    then show "begins_created (versions_of (doc_id r) ?d')"
      using fv r(1) by (simp add: first_version_created_def)
  qed
  ultimately show ?thesis
    using True by (simp add: delete_documents_eq schema_invariant_def)
qed

subsection \<open>The migration\<close>

lemma schema_invariant_backfill:
  assumes "primary_keys d" and "foreign_key d"
    and "set rs \<subseteq> set (tbl_documents d)" and "distinct (map doc_id rs)"
    and "\<forall>r \<in> set rs. versions_of (doc_id r) d = []"
    and "\<forall>r \<in> set (tbl_documents d).
           doc_id r \<notin> doc_id ` set rs \<longrightarrow> begins_created (versions_of (doc_id r) d)"
  shows "schema_invariant
           (fold (\<lambda>r. insert_version_row (doc_created_at r) (doc_id r) (doc_title r)
                        (doc_content r) created (doc_user_id r)) rs d)"
  using assms
proof (induction rs arbitrary: d)
  case Nil
  then show ?case
    by (simp add: schema_invariant_def first_version_created_def)
next
  case (Cons r rs)
  let ?d' = "insert_version_row (doc_created_at r) (doc_id r) (doc_title r) (doc_content r)
               created (doc_user_id r) d"
  have r: "r \<in> set (tbl_documents d)"
    using Cons.prems(3) by simp
  have 1: "primary_keys ?d'"
    using Cons.prems(1) by (rule primary_keys_insert_version_row)
  have 2: "foreign_key ?d'"
    using Cons.prems(2) r by (intro foreign_key_insert_version_row) simp_all
  have 3: "set rs \<subseteq> set (tbl_documents ?d')"
    using Cons.prems(3) by (simp add: tbl_documents_insert_version_row)
  have 4: "distinct (map doc_id rs)"
    using Cons.prems(4) by simp
  have 5: "\<forall>x \<in> set rs. versions_of (doc_id x) ?d' = []"
  proof
    fix x assume x: "x \<in> set rs"
    then have "doc_id r \<noteq> doc_id x"
      using Cons.prems(4) by auto
    moreover have "versions_of (doc_id x) d = []"
      using Cons.prems(5) x by simp
    ultimately show "versions_of (doc_id x) ?d' = []"
      by (simp add: versions_of_insert_version_row)
  qed
  have 6: "\<forall>x \<in> set (tbl_documents ?d').
             doc_id x \<notin> doc_id ` set rs \<longrightarrow> begins_created (versions_of (doc_id x) ?d')"
  proof (intro ballI impI)
    fix x assume x: "x \<in> set (tbl_documents ?d')" and n: "doc_id x \<notin> doc_id ` set rs"
    show "begins_created (versions_of (doc_id x) ?d')"
    proof (cases "doc_id x = doc_id r")
      case True
      have "versions_of (doc_id r) d = []"
        using Cons.prems(5) by simp
      then show ?thesis
        using True by (simp add: versions_of_insert_version_row begins_created_def)
    next
      case False
      with n have "doc_id x \<notin> doc_id ` set (r # rs)"
        by simp
      moreover have "x \<in> set (tbl_documents d)"
        using x by (simp add: tbl_documents_insert_version_row)
      ultimately have "begins_created (versions_of (doc_id x) d)"
        using Cons.prems(6) by blast
      then show ?thesis
        using False by (simp add: versions_of_insert_version_row)
    qed
  qed
  show ?case
    using Cons.IH [OF 1 2 3 4 5 6] by simp
qed

lemma schema_invariant_initial_versions:
  assumes "distinct (map doc_id docs)" and "\<forall>r \<in> set docs. doc_id r < n"
  shows "schema_invariant
           (initial_versions \<lparr>tbl_documents = docs, tbl_document_versions = [], next_uuid = n\<rparr>)"
proof -
  let ?d = "\<lparr>tbl_documents = docs, tbl_document_versions = [], next_uuid = n\<rparr>"
  have "schema_invariant
          (fold (\<lambda>r. insert_version_row (doc_created_at r) (doc_id r) (doc_title r)
                       (doc_content r) created (doc_user_id r)) docs ?d)"
    using assms
    by (intro schema_invariant_backfill)
       (simp_all add: primary_keys_def foreign_key_def versions_of_def)
  then show ?thesis
    by (simp add: initial_versions_def)
qed

subsection \<open>The store's actions keep the constraints\<close>

lemma schema_invariant_createDocument:
  "schema_invariant (fst w) \<Longrightarrow> schema_invariant (fst (snd (createDocument cenv ttl w)))"
  by (cases w)
     (simp add: createDocument_def Let_def case_prod_beta schema_invariant_insert_document
        split: option.split)

lemma schema_invariant_updateDocument:
  "schema_invariant (fst w) \<Longrightarrow> schema_invariant (fst (updateDocument uenv i u w))"
  by (cases w)
     (simp add: updateDocument_def Let_def schema_invariant_update_documents split: option.split)

lemma schema_invariant_deleteDocument:
  "schema_invariant (fst w) \<Longrightarrow> schema_invariant (fst (deleteDocument fault i w))"
  by (cases w)
     (simp add: deleteDocument_def Let_def schema_invariant_delete_documents split: option.split)

lemma fst_fetchVersionHistory: "fst (fetchVersionHistory henv i w) = fst w"
  by (cases w) (simp add: fetchVersionHistory_def Let_def split: option.split)

lemma fst_fetchDocuments: "fst (fetchDocuments fault w) = fst w"
  by (cases w) (simp add: fetchDocuments_def Let_def split: option.split)

lemma fst_fetchDocument: "fst (fetchDocument fault e i w) = fst w"
  by (cases w) (simp add: fetchDocument_def Let_def split: option.split sum.split)

lemma schema_invariant_restoreVersion:
  assumes "schema_invariant (fst w)"
  shows "schema_invariant (fst (restoreVersion renv i vid w))"
proof -
  obtain d s where w: "w = (d, s)" by (cases w)
  have inv: "schema_invariant d" using assms w by simp
  have upd: "schema_invariant (update_documents now a i d)" for now a
    using inv by (rule schema_invariant_update_documents)
  have ins: "schema_invariant d'"
    if "insert_document_version now' i t c ct uid (update_documents now a i d) = Some d'"
    for now now' a t c ct uid d'
    using that upd [of now a]
    by (auto simp: insert_document_version_def schema_invariant_insert_version_row
        split: if_splits)
  show ?thesis
    unfolding w restoreVersion_def
    using inv upd ins
    by (auto simp: Let_def fst_fetchVersionHistory split: option.split sum.split)
qed

lemma reachable_schema_invariant: "reachable w \<Longrightarrow> schema_invariant (fst w)"
proof (induction rule: reachable.induct)
  case (migrated docs n)
  then show ?case by (simp add: schema_invariant_initial_versions)
next
  case (create w cenv ttl)
  then show ?case by (simp add: schema_invariant_createDocument)
next
  case (update w uenv i u)
  then show ?case by (simp add: schema_invariant_updateDocument)
next
  case (delete w fault i)
  then show ?case by (simp add: schema_invariant_deleteDocument)
next
  case (history w henv i)
  then show ?case by (simp add: fst_fetchVersionHistory)
next
  case (list w fault)
  then show ?case by (simp add: fst_fetchDocuments)
next
  case (fetch w fault e i)
  then show ?case by (simp add: fst_fetchDocument)
next
  case (clear_error w)
  then show ?case by (simp add: clearError_def)
next
  case (clear_versions w)
  then show ?case by (simp add: clearVersions_def)
next
  case (restore w renv i vid)
  then show ?case by (simp add: schema_invariant_restoreVersion)
qed

text \<open>
  C7. In every reachable state every document in the table has at least one version, and
  the first of its versions, in the order of their insertion, is a \<^verbatim>\<open>created\<close> one.
\<close>

theorem created_documents_keep_first_version:
  assumes "reachable w"
  shows "\<forall>r \<in> set (tbl_documents (fst w)).
           versions_of (doc_id r) (fst w) \<noteq> [] \<and>
           ver_change_type (hd (versions_of (doc_id r) (fst w))) = created"
proof
  fix r assume "r \<in> set (tbl_documents (fst w))"
  moreover have "first_version_created (fst w)"
    using reachable_schema_invariant [OF assms] by (simp add: schema_invariant_def)
  ultimately have "begins_created (versions_of (doc_id r) (fst w))"
    by (simp add: first_version_created_def)
  then show "versions_of (doc_id r) (fst w) \<noteq> [] \<and>
             ver_change_type (hd (versions_of (doc_id r) (fst w))) = created"
    by (cases "versions_of (doc_id r) (fst w)") (simp_all add: begins_created_def)
qed

theorem created_documents_keep_first_version_witness:
  "reachable scenario_3
   \<and> map doc_id (tbl_documents (fst scenario_3)) = [0]
   \<and> versions_of 0 (fst scenario_3) \<noteq> []
   \<and> ver_change_type (hd (versions_of 0 (fst scenario_3))) = created"
proof -
  have "\<forall>r \<in> set (tbl_documents (fst scenario_3)).
          versions_of (doc_id r) (fst scenario_3) \<noteq> [] \<and>
          ver_change_type (hd (versions_of (doc_id r) (fst scenario_3))) = created"
    using reachable_scenario_3 by (rule created_documents_keep_first_version)
  then show ?thesis
    using reachable_scenario_3 by (simp add: scenario_3_eq)
qed

section \<open>Listing the version history\<close>

lemma mset_insert_desc: "mset (insert_desc key x ys) = add_mset x (mset ys)"
  by (induction ys) auto

lemma mset_order_by_desc: "mset (order_by_desc key xs) = mset xs"
  by (induction xs) (auto simp: mset_insert_desc)

lemma set_insert_desc: "set (insert_desc key x ys) = insert x (set ys)"
  by (induction ys) auto

lemma sorted_insert_desc:
  "sorted_wrt (\<lambda>a b. key b \<le> key a) ys \<Longrightarrow>
   sorted_wrt (\<lambda>a b. key b \<le> key a) (insert_desc key x ys)"
  by (induction ys) (auto simp: set_insert_desc)

lemma sorted_order_by_desc: "sorted_wrt (\<lambda>a b. key b \<le> key a) (order_by_desc key xs)"
  by (induction xs) (auto simp: sorted_insert_desc)

lemma truncate_extend:
  "document_version.truncate (document_version.extend v (DocumentVersion.fields e)) = v"
  by (cases v) (simp add: document_version.truncate_def document_version.extend_def DocumentVersion.fields_def)

lemma fetchVersionHistory_ok:
  "h_fault henv = None \<Longrightarrow>
   fetchVersionHistory henv i (d, s) =
     (d, s\<lparr>versionsLoading := False, error := None,
           versions := map (\<lambda>version. document_version.extend version
                           (DocumentVersion.fields
                              (display_email (h_users henv (ver_user_id version)))))
                        (select_versions_by_document i d)\<rparr>)"
  by (simp add: fetchVersionHistory_def)

text \<open>
  C5. A listing that the storage service answers returns the versions of the document,
  all of them and no others, newest first by creation time; each entry carries the email
  the join resolves for its user, or \<^verbatim>\<open>Unknown user\<close> where the join finds no user
  or no email (or an empty one), and the store records no error.
\<close>

theorem version_history_listing:
  assumes "h_fault henv = None"
  shows "mset (map document_version.truncate (versions (snd (fetchVersionHistory henv i (d, s))))) =
           mset (versions_of i d)
       \<and> sorted_wrt (\<lambda>a b. ver_created_at b \<le> ver_created_at a)
           (versions (snd (fetchVersionHistory henv i (d, s))))
       \<and> (\<forall>v \<in> set (versions (snd (fetchVersionHistory henv i (d, s)))).
            user_email v =
              (case h_users henv (ver_user_id v) of
                 Some (Some email) \<Rightarrow> if email = [] then ''Unknown user'' else email
               | _ \<Rightarrow> ''Unknown user''))
       \<and> error (snd (fetchVersionHistory henv i (d, s))) = None"
proof -
  let ?vs = "versions (snd (fetchVersionHistory henv i (d, s)))"
  have vs: "?vs = map (\<lambda>version. document_version.extend version
                           (DocumentVersion.fields
                              (display_email (h_users henv (ver_user_id version)))))
                        (select_versions_by_document i d)"
    using assms by (simp add: fetchVersionHistory_ok)
  have "map document_version.truncate ?vs = select_versions_by_document i d"
    unfolding vs by (simp add: truncate_extend o_def)
  then have a: "mset (map document_version.truncate ?vs) = mset (versions_of i d)"
    by (simp add: select_versions_by_document_def versions_of_def mset_order_by_desc)
  have b: "sorted_wrt (\<lambda>a b. ver_created_at b \<le> ver_created_at a) ?vs"
    unfolding vs
    using sorted_order_by_desc [of ver_created_at
        "filter (\<lambda>v. ver_document_id v = i) (tbl_document_versions d)"]
    by (simp add: sorted_wrt_map select_versions_by_document_def document_version.extend_def)
  have c: "\<forall>v \<in> set ?vs. user_email v =
              (case h_users henv (ver_user_id v) of
                 Some (Some email) \<Rightarrow> if email = [] then ''Unknown user'' else email
               | _ \<Rightarrow> ''Unknown user'')"
    unfolding vs
    by (auto simp: display_email_def document_version.extend_def DocumentVersion.fields_def
        split: option.splits)
  have e: "error (snd (fetchVersionHistory henv i (d, s))) = None"
    using assms by (simp add: fetchVersionHistory_ok)
  from a b c e show ?thesis by blast
qed

theorem version_history_listing_witness:
  "h_fault ok_history = None
   \<and> map (\<lambda>v. (ver_id v, ver_created_at v, user_email v))
       (versions (snd (fetchVersionHistory ok_history 0
          (\<lparr>tbl_documents = [],
             tbl_document_versions =
               [\<lparr>ver_id = 1, ver_document_id = 0, ver_title = ''a'', ver_content = None,
                  ver_change_type = created, ver_user_id = 7, ver_created_at = 10\<rparr>,
                \<lparr>ver_id = 2, ver_document_id = 0, ver_title = ''b'', ver_content = None,
                  ver_change_type = restored, ver_user_id = 8, ver_created_at = 30\<rparr>,
                \<lparr>ver_id = 3, ver_document_id = 5, ver_title = ''c'', ver_content = None,
                  ver_change_type = created, ver_user_id = 7, ver_created_at = 20\<rparr>],
             next_uuid = 4\<rparr>, initial_state)))) =
     [(2, 30, ''Unknown user''), (1, 10, ''ann@example.org'')]"
proof -
  have h: "h_fault ok_history = None"
    by (simp add: ok_history_def)
  show ?thesis
    using h version_history_listing [OF h, of 0 _ initial_state]
    by (simp add: ok_history_def fetchVersionHistory_def select_versions_by_document_def
        display_email_def document_version.extend_def DocumentVersion.fields_def)
qed

section \<open>Failed storage calls\<close>

lemma updateDocument_fault:
  "u_fault uenv = Some e \<Longrightarrow>
   updateDocument uenv i u (d, s) =
     (d, s\<lparr>error := Some (error_message ''Failed to update document'' e)\<rparr>)"
  by (simp add: updateDocument_def)

lemma deleteDocument_fault:
  "deleteDocument (Some e) i (d, s) =
     (d, s\<lparr>loading := False, error := Some (error_message ''Failed to delete document'' e)\<rparr>)"
  by (simp add: deleteDocument_def)

lemma fetchVersionHistory_fault:
  "h_fault henv = Some e \<Longrightarrow>
   fetchVersionHistory henv i (d, s) =
     (d, s\<lparr>versionsLoading := False,
           error := Some (error_message ''Failed to fetch version history'' e)\<rparr>)"
  by (simp add: fetchVersionHistory_def)

text \<open>
  C10. When the storage call of \<^verbatim>\<open>updateDocument\<close>, \<^verbatim>\<open>deleteDocument\<close> or
  \<^verbatim>\<open>fetchVersionHistory\<close> fails, the documents list, the current document and the
  versions list of the store keep their values, and an error message is recorded.
\<close>

theorem failed_storage_call_keeps_local_state:
  assumes "u_fault uenv = Some e1" and "h_fault henv = Some e3"
  shows "documents (snd (updateDocument uenv i u (d, s))) = documents s
       \<and> currentDocument (snd (updateDocument uenv i u (d, s))) = currentDocument s
       \<and> versions (snd (updateDocument uenv i u (d, s))) = versions s
       \<and> error (snd (updateDocument uenv i u (d, s))) \<noteq> None
       \<and> documents (snd (deleteDocument (Some e2) i (d, s))) = documents s
       \<and> currentDocument (snd (deleteDocument (Some e2) i (d, s))) = currentDocument s
       \<and> versions (snd (deleteDocument (Some e2) i (d, s))) = versions s
       \<and> error (snd (deleteDocument (Some e2) i (d, s))) \<noteq> None
       \<and> documents (snd (fetchVersionHistory henv i (d, s))) = documents s
       \<and> currentDocument (snd (fetchVersionHistory henv i (d, s))) = currentDocument s
       \<and> versions (snd (fetchVersionHistory henv i (d, s))) = versions s
       \<and> error (snd (fetchVersionHistory henv i (d, s))) \<noteq> None"
  by (simp add: updateDocument_fault [OF assms(1)] deleteDocument_fault
      fetchVersionHistory_fault [OF assms(2)])

theorem failed_storage_call_keeps_local_state_witness:
  "u_fault ((ok_update 200)\<lparr>u_fault := Some (Error ''offline'')\<rparr>) = Some (Error ''offline'')
   \<and> h_fault (ok_history\<lparr>h_fault := Some NonError\<rparr>) = Some NonError
   \<and> snd (updateDocument ((ok_update 200)\<lparr>u_fault := Some (Error ''offline'')\<rparr>) 0
            \<lparr>upd_title = Some ''Draft'', upd_content = Some (Some ''Hello'')\<rparr> scenario_1) =
       (snd scenario_1)\<lparr>error := Some ''offline''\<rparr>
   \<and> documents (snd (deleteDocument (Some NonError) 0 scenario_1)) = documents (snd scenario_1)
   \<and> error (snd (deleteDocument (Some NonError) 0 scenario_1)) =
       Some ''Failed to delete document''
   \<and> versions (snd (fetchVersionHistory (ok_history\<lparr>h_fault := Some NonError\<rparr>) 0 scenario_1)) =
       versions (snd scenario_1)"
proof -
  let ?uenv = "(ok_update 200)\<lparr>u_fault := Some (Error ''offline'')\<rparr>"
  let ?henv = "ok_history\<lparr>h_fault := Some NonError\<rparr>"
  have u: "u_fault ?uenv = Some (Error ''offline'')" by simp
  have h: "h_fault ?henv = Some NonError" by simp
  show ?thesis
    using failed_storage_call_keeps_local_state [OF u h, of 0
        "\<lparr>upd_title = Some ''Draft'', upd_content = Some (Some ''Hello'')\<rparr>" "fst scenario_1"
        "snd scenario_1" NonError]
    by (simp add: scenario_1_eq updateDocument_def deleteDocument_def fetchVersionHistory_def
        error_message_def initial_state_def)
qed

section \<open>Blank titles\<close>

lemma dropWhile_all: "(\<forall>x \<in> set xs. P x) \<Longrightarrow> dropWhile P xs = []"
  by (induction xs) simp_all

lemma js_trim_blank_iff: "js_trim t = [] \<longleftrightarrow> (\<forall>c \<in> set t. is_js_whitespace c)"
proof
  assume "js_trim t = []"
  then have "dropWhile is_js_whitespace (rev (dropWhile is_js_whitespace t)) = []"
    by (simp add: js_trim_def)
  then have "\<forall>c \<in> set (rev (dropWhile is_js_whitespace t)). is_js_whitespace c"
    by (simp add: dropWhile_eq_Nil_conv)
  then have "dropWhile is_js_whitespace t = []"
    by (metis dropWhile_eq_Nil_conv dropWhile_idem set_rev)
  then show "\<forall>c \<in> set t. is_js_whitespace c"
    by (simp add: dropWhile_eq_Nil_conv)
next
  assume "\<forall>c \<in> set t. is_js_whitespace c"
  then show "js_trim t = []"
    by (simp add: js_trim_def dropWhile_all)
qed

text \<open>
  C6 (amended). For a title that is empty or has only white space, the dashboard's
  \<^verbatim>\<open>handleCreateDocument\<close> returns at once: the page, the tables and the store,
  its error field included, stay as they were, so no row is created and no error is
  raised.
\<close>

theorem blank_title_creates_nothing:
  assumes "\<forall>c \<in> set (newDocTitle p). is_js_whitespace c"
  shows "handleCreateDocument cenv (p, d, s) = (p, d, s)"
  using assms by (simp add: handleCreateDocument_def js_trim_blank_iff)

theorem blank_title_creates_nothing_witness:
  "list_all is_js_whitespace [CHR '' '', CHR 0x09, CHR 0xA0]
   \<and> handleCreateDocument ok_create
        (\<lparr>newDocTitle = [CHR '' '', CHR 0x09, CHR 0xA0], isCreating = True, navigated = None\<rparr>,
         scenario_0) =
       (\<lparr>newDocTitle = [CHR '' '', CHR 0x09, CHR 0xA0], isCreating = True, navigated = None\<rparr>,
        scenario_0)"
proof -
  have b: "\<forall>c \<in> set (newDocTitle
             \<lparr>newDocTitle = [CHR '' '', CHR 0x09, CHR 0xA0], isCreating = True,
                navigated = None\<rparr>). is_js_whitespace c"
    by (simp add: is_js_whitespace_def)
  show ?thesis
    using blank_title_creates_nothing [OF b, of ok_create "fst scenario_0" "snd scenario_0"]
    by (simp add: is_js_whitespace_def)
qed

text \<open>
  C6 as stated fails: \<^verbatim>\<open>createDocument\<close> does not look at the title. With the empty
  title it inserts a row and resolves with its id, and neither it nor the handler
  records an error.
\<close>

theorem createDocument_accepts_blank_title:
  "fst (createDocument ok_create [] scenario_0) = Inr 0
   \<and> map doc_title (tbl_documents (fst (snd (createDocument ok_create [] scenario_0)))) = [[]]
   \<and> error (snd (snd (createDocument ok_create [] scenario_0))) = None
   \<and> error (snd (snd (handleCreateDocument ok_create
        (\<lparr>newDocTitle = [], isCreating = True, navigated = None\<rparr>, scenario_0)))) = None"
  by (simp add: scenario_0_eq ok_create_def initial_state_def handleCreateDocument_def
      js_trim_def store_defs)

section \<open>Restore\<close>

text \<open>What the function does once the version is fetched and the update has gone
  through, with the three outcomes of the insert kept apart.\<close>

lemma restoreVersion_reaches_step_3:
  assumes "r_fetch_fault env = None" and "select_version_by_id vid d = [V]"
    and "r_update_fault env = None"
  shows "fst (restoreVersion env i vid (d, s)) =
           (let d1 = update_documents (r_update_now env)
                       \<lparr>set_title = Some (ver_title V), set_content = Some (ver_content V),
                         set_updated_at = r_date_request env\<rparr> i d
            in case r_user env of
                 None \<Rightarrow> d1
               | Some uid \<Rightarrow>
                   (case r_insert_fault env of
                      Some e \<Rightarrow> d1
                    | None \<Rightarrow>
                        if i \<in> set (map doc_id (tbl_documents d1))
                        then insert_version_row (r_insert_now env) i (ver_title V)
                               (ver_content V) restored uid d1
                        else d1))"
  using assms
  by (simp add: restoreVersion_def single_def Let_def fst_fetchVersionHistory
      insert_document_version_def split: option.split)

lemma restoreVersion_error:
  assumes "r_fetch_fault env = None" and "select_version_by_id vid d = [V]"
    and "r_update_fault env = None"
  shows "error (snd (restoreVersion env i vid (d, s))) =
           map_option (error_message ''Failed to fetch version history'') (h_fault (r_history env))"
  using assms
  by (simp add: restoreVersion_def single_def Let_def fetchVersionHistory_def
      split: option.split)

lemma doc_ids_update_documents:
  "map doc_id (tbl_documents (update_documents now a i d)) = map doc_id (tbl_documents d)"
  by (simp add: tbl_documents_update_documents o_def if_distrib cong: if_cong)

text \<open>
  C2 (amended). When the version is fetched, the update goes through, the user lookup
  gives a user, the insert is accepted and the document exists, the restore appends one
  version after whatever the update left in the table: a \<^verbatim>\<open>restored\<close> one with the
  title and content of the fetched version, whether or not they differ from the live
  document's.
\<close>

theorem restore_appends_restored_version:
  assumes "r_fetch_fault env = None" and "select_version_by_id vid d = [V]"
    and "r_update_fault env = None"
    and "r_user env = Some uid" and "r_insert_fault env = None"
    and "i \<in> set (map doc_id (tbl_documents d))"
  shows "tbl_document_versions (fst (restoreVersion env i vid (d, s))) =
           tbl_document_versions
             (update_documents (r_update_now env)
                \<lparr>set_title = Some (ver_title V), set_content = Some (ver_content V),
                  set_updated_at = r_date_request env\<rparr> i d) @
           [\<lparr>ver_id = next_uuid
                (update_documents (r_update_now env)
                   \<lparr>set_title = Some (ver_title V), set_content = Some (ver_content V),
                     set_updated_at = r_date_request env\<rparr> i d),
              ver_document_id = i, ver_title = ver_title V, ver_content = ver_content V,
              ver_change_type = restored, ver_user_id = uid,
              ver_created_at = r_insert_now env\<rparr>]"
proof -
  let ?d1 = "update_documents (r_update_now env)
               \<lparr>set_title = Some (ver_title V), set_content = Some (ver_content V),
                 set_updated_at = r_date_request env\<rparr> i d"
  have "i \<in> set (map doc_id (tbl_documents ?d1))"
    using assms(6) by (simp only: doc_ids_update_documents)
  then have "fst (restoreVersion env i vid (d, s)) =
               insert_version_row (r_insert_now env) i (ver_title V) (ver_content V) restored
                 uid ?d1"
    using restoreVersion_reaches_step_3 [OF assms(1-3), of i s] assms(4,5)
    by (simp add: Let_def)
  then show ?thesis
    by (simp add: tbl_document_versions_insert_version_row)
qed

theorem restore_appends_restored_version_witness:
  "r_fetch_fault (ok_restore 500) = None
   \<and> select_version_by_id 1 (fst scenario_4) = [first_version]
   \<and> r_update_fault (ok_restore 500) = None
   \<and> r_user (ok_restore 500) = Some 7
   \<and> r_insert_fault (ok_restore 500) = None
   \<and> 0 \<in> set (map doc_id (tbl_documents (fst scenario_4)))
   \<and> map (\<lambda>r. (doc_title r, doc_content r)) (tbl_documents (fst scenario_4)) =
       [(ver_title first_version, ver_content first_version)]
   \<and> tbl_document_versions (fst scenario_5) =
       tbl_document_versions (fst scenario_4) @
       [\<lparr>ver_id = 6, ver_document_id = 0, ver_title = ''Draft'', ver_content = Some [],
          ver_change_type = restored, ver_user_id = 7, ver_created_at = 500\<rparr>]"
proof -
  have 1: "r_fetch_fault (ok_restore 500) = None"
    and 3: "r_update_fault (ok_restore 500) = None"
    and 4: "r_user (ok_restore 500) = Some 7"
    and 5: "r_insert_fault (ok_restore 500) = None"
    by (simp_all add: ok_restore_def)
  have 2: "select_version_by_id 1 (fst scenario_4) = [first_version]"
    by (simp add: select_version_by_id_def fst_scenario_4 first_version_def)
  have 6: "0 \<in> set (map doc_id (tbl_documents (fst scenario_4)))"
    by (simp add: fst_scenario_4)
  show ?thesis
    using 1 2 3 4 5 6 restore_appends_restored_version [OF 1 2 3 4 5 6, of "snd scenario_4"]
    by (simp add: fst_scenario_5 fst_scenario_4 first_version_def)
qed

text \<open>
  C2 as stated fails: the insert is guarded by \<^verbatim>\<open>if (user)\<close>. When the lookup gives
  no user the restore reaches its third step, the document is rewritten, the Recorder
  adds its version, and no \<^verbatim>\<open>restored\<close> version is appended.
\<close>

theorem restore_without_user_appends_nothing:
  "map ver_change_type
     (tbl_document_versions
        (fst (restoreVersion ((ok_restore 400)\<lparr>r_user := None\<rparr>) 0 1 scenario_3))) =
     [created, content_modified, title_updated, content_modified]
   \<and> map (\<lambda>r. (doc_title r, doc_content r))
       (tbl_documents (fst (restoreVersion ((ok_restore 400)\<lparr>r_user := None\<rparr>) 0 1 scenario_3))) =
     [(''Draft'', Some [])]
   \<and> error (snd (restoreVersion ((ok_restore 400)\<lparr>r_user := None\<rparr>) 0 1 scenario_3)) = None"
  by (simp add: scenario_3_eq ok_restore_def ok_history_def initial_state_def store_defs)

text \<open>
  C3. The restore drops the answer of its insert. At this input the insert fails: the
  store records no error, the loading flag is cleared as after a success, and the table
  has no \<^verbatim>\<open>restored\<close> version. A failure of the update at the same input is recorded.
\<close>

theorem restore_insert_error_is_dropped:
  "error (snd (restoreVersion ((ok_restore 400)\<lparr>r_insert_fault := Some (Error ''insert failed'')\<rparr>)
                 0 1 scenario_3)) = None
   \<and> loading (snd (restoreVersion
                     ((ok_restore 400)\<lparr>r_insert_fault := Some (Error ''insert failed'')\<rparr>)
                     0 1 scenario_3)) = False
   \<and> map ver_change_type
       (tbl_document_versions
          (fst (restoreVersion ((ok_restore 400)\<lparr>r_insert_fault := Some (Error ''insert failed'')\<rparr>)
                  0 1 scenario_3))) =
     [created, content_modified, title_updated, content_modified]
   \<and> error (snd (restoreVersion ((ok_restore 400)\<lparr>r_update_fault := Some (Error ''update failed'')\<rparr>)
                   0 1 scenario_3)) = Some ''update failed''"
  by (simp add: scenario_3_eq ok_restore_def ok_history_def initial_state_def store_defs)

lemma primary_keys_create_document_version:
  "primary_keys d \<Longrightarrow> primary_keys (create_document_version op OLD NEW now d)"
  by (simp add: create_document_version_def primary_keys_insert_version_row split: option.split)

lemma primary_keys_fold_trigger:
  "primary_keys d \<Longrightarrow>
   primary_keys (fold (\<lambda>r. create_document_version UPDATE r (f r) now) rows d)"
  by (induction rows arbitrary: d) (simp_all add: primary_keys_create_document_version)

lemma primary_keys_update_documents:
  assumes "primary_keys d"
  shows "primary_keys (update_documents now a i d)"
proof -
  let ?docs = "map (\<lambda>r. if doc_id r = i then update_updated_at_column now (apply_set a r) else r)
                 (tbl_documents d)"
  have "map doc_id ?docs = map doc_id (tbl_documents d)"
    by (simp add: o_def if_distrib cong: if_cong)
  moreover have "\<forall>r \<in> set ?docs. doc_id r < next_uuid d"
    using assms by (auto simp: primary_keys_def)
  ultimately have "primary_keys (d\<lparr>tbl_documents := ?docs\<rparr>)"
    using assms unfolding primary_keys_def by (simp del: map_map)
  then show ?thesis
    unfolding update_documents_def Let_def by (rule primary_keys_fold_trigger)
qed

lemma change_type_val_unchanged:
  assumes "doc_title NEW = doc_title OLD" and "doc_content NEW = doc_content OLD"
  shows "change_type_val UPDATE OLD NEW = None"
  using assms
  by (cases "doc_content OLD")
     (simp_all add: change_type_val_def sql_ne_def sql_and_def is_true_def)

text \<open>One successful restore, on a table that satisfies its primary keys.\<close>

lemma restore_once:
  fixes env :: restore_env and V :: document_version and D :: document and d :: db
  defines "a \<equiv> \<lparr>set_title = Some (ver_title V), set_content = Some (ver_content V),
                  set_updated_at = r_date_request env\<rparr>"
  defines "NEW \<equiv> update_updated_at_column (r_update_now env) (apply_set a D)"
  defines "recorded \<equiv>
             (case change_type_val UPDATE D NEW of
                None \<Rightarrow> []
              | Some ct \<Rightarrow>
                  [\<lparr>ver_id = next_uuid d, ver_document_id = doc_id D, ver_title = ver_title V,
                    ver_content = ver_content V, ver_change_type = ct,
                    ver_user_id = doc_user_id D, ver_created_at = r_update_now env\<rparr>])"
  assumes pk: "primary_keys d"
    and D: "D \<in> set (tbl_documents d)"
    and V: "V \<in> set (tbl_document_versions d)"
    and ok: "storage_ok env uid"
  shows "tbl_document_versions (fst (restoreVersion env (doc_id D) (ver_id V) (d, s))) =
           tbl_document_versions d @ recorded @
           [\<lparr>ver_id = next_uuid d + length recorded, ver_document_id = doc_id D,
              ver_title = ver_title V, ver_content = ver_content V, ver_change_type = restored,
              ver_user_id = uid, ver_created_at = r_insert_now env\<rparr>]"
    and "tbl_documents (fst (restoreVersion env (doc_id D) (ver_id V) (d, s))) =
           map (\<lambda>r. if doc_id r = doc_id D then update_updated_at_column (r_update_now env) (apply_set a r) else r)
             (tbl_documents d)"
    and "primary_keys (fst (restoreVersion env (doc_id D) (ver_id V) (d, s)))"
    and "next_uuid (fst (restoreVersion env (doc_id D) (ver_id V) (d, s))) =
           Suc (next_uuid d + length recorded)"
proof -
  let ?i = "doc_id D"
  let ?d1 = "update_documents (r_update_now env) a ?i d"
  let ?d0 = "d\<lparr>tbl_documents :=
                 map (\<lambda>x. if doc_id x = ?i
                           then update_updated_at_column (r_update_now env) (apply_set a x) else x)
                   (tbl_documents d)\<rparr>"
  have dist: "distinct (map doc_id (tbl_documents d))"
    and vdist: "distinct (map ver_id (tbl_document_versions d))"
    using pk by (simp_all add: primary_keys_def)
  have sel: "select_version_by_id (ver_id V) d = [V]"
    unfolding select_version_by_id_def by (rule filter_key_distinct [OF vdist V])
  have d1: "?d1 = create_document_version UPDATE D NEW (r_update_now env) ?d0"
    unfolding NEW_def by (rule update_documents_one_row [OF dist D])
  have v1: "tbl_document_versions ?d1 = tbl_document_versions d @ recorded"
    unfolding d1 recorded_def
    by (simp add: tbl_document_versions_create_document_version NEW_def a_def
        update_updated_at_column_def apply_set_def split: option.split)
  have n1: "next_uuid ?d1 = next_uuid d + length recorded"
    unfolding d1 recorded_def
    by (simp add: next_uuid_create_document_version split: option.split)
  have mem: "?i \<in> set (map doc_id (tbl_documents ?d1))"
    using D by (simp only: doc_ids_update_documents) simp
  have step: "fst (restoreVersion env ?i (ver_id V) (d, s)) =
                insert_version_row (r_insert_now env) ?i (ver_title V) (ver_content V) restored
                  uid ?d1"
    using restoreVersion_reaches_step_3 [of env "ver_id V" d V ?i s] ok sel mem
    by (simp add: storage_ok_def Let_def a_def)
  show "tbl_document_versions (fst (restoreVersion env ?i (ver_id V) (d, s))) =
           tbl_document_versions d @ recorded @
           [\<lparr>ver_id = next_uuid d + length recorded, ver_document_id = ?i,
              ver_title = ver_title V, ver_content = ver_content V, ver_change_type = restored,
              ver_user_id = uid, ver_created_at = r_insert_now env\<rparr>]"
    by (simp add: step tbl_document_versions_insert_version_row v1 n1)
  show "tbl_documents (fst (restoreVersion env ?i (ver_id V) (d, s))) =
           map (\<lambda>r. if doc_id r = ?i then update_updated_at_column (r_update_now env) (apply_set a r) else r)
             (tbl_documents d)"
    by (simp add: step tbl_documents_insert_version_row tbl_documents_update_documents)
  show "primary_keys (fst (restoreVersion env ?i (ver_id V) (d, s)))"
    unfolding step
    by (intro primary_keys_insert_version_row primary_keys_update_documents pk)
  show "next_uuid (fst (restoreVersion env ?i (ver_id V) (d, s))) =
          Suc (next_uuid d + length recorded)"
    by (simp add: step next_uuid_insert_version_row n1)
qed

text \<open>
  C4 (amended). Restoring version V of document D twice in a row, with the acting user
  known and every storage call accepted: after each call every row of D carries V's title
  and content. The first call appends what the Recorder records for the update and then
  one \<^verbatim>\<open>restored\<close> version; the Recorder records one \<^verbatim>\<open>content_modified\<close>
  version when the contents of D and V, neither of them NULL, differ, otherwise one
  \<^verbatim>\<open>title_updated\<close> version when the titles differ, otherwise nothing. So with
  contents that are not NULL it records one version when D's title and content differ
  from V's and none when they are equal; a difference that lies in a NULL content alone
  is not recorded. The second call appends exactly one version, a \<^verbatim>\<open>restored\<close>
  one.
\<close>

theorem restore_twice:
  fixes env1 env2 :: restore_env and V :: document_version and D :: document and d :: db
    and s :: DocumentState
  defines "w1 \<equiv> restoreVersion env1 (doc_id D) (ver_id V) (d, s)"
  defines "w2 \<equiv> restoreVersion env2 (doc_id D) (ver_id V) w1"
  defines "NEW \<equiv> update_updated_at_column (r_update_now env1)
                   (apply_set \<lparr>set_title = Some (ver_title V), set_content = Some (ver_content V),
                                set_updated_at = r_date_request env1\<rparr> D)"
  defines "recorded \<equiv>
             (case change_type_val UPDATE D NEW of
                None \<Rightarrow> []
              | Some ct \<Rightarrow>
                  [\<lparr>ver_id = next_uuid d, ver_document_id = doc_id D, ver_title = ver_title V,
                    ver_content = ver_content V, ver_change_type = ct,
                    ver_user_id = doc_user_id D, ver_created_at = r_update_now env1\<rparr>])"
  assumes pk: "primary_keys d"
    and D: "D \<in> set (tbl_documents d)"
    and V: "V \<in> set (tbl_document_versions d)"
    and ok1: "storage_ok env1 u1" and ok2: "storage_ok env2 u2"
  shows "tbl_document_versions (fst w1) =
           tbl_document_versions d @ recorded @
           [\<lparr>ver_id = next_uuid d + length recorded, ver_document_id = doc_id D,
              ver_title = ver_title V, ver_content = ver_content V, ver_change_type = restored,
              ver_user_id = u1, ver_created_at = r_insert_now env1\<rparr>]
       \<and> tbl_document_versions (fst w2) =
           tbl_document_versions (fst w1) @
           [\<lparr>ver_id = Suc (next_uuid d + length recorded), ver_document_id = doc_id D,
              ver_title = ver_title V, ver_content = ver_content V, ver_change_type = restored,
              ver_user_id = u2, ver_created_at = r_insert_now env2\<rparr>]
       \<and> map ver_change_type recorded =
           (if doc_content D \<noteq> None \<and> ver_content V \<noteq> None \<and> doc_content D \<noteq> ver_content V
            then [content_modified]
            else if doc_title D \<noteq> ver_title V then [title_updated]
            else [])
       \<and> (doc_title D = ver_title V \<and> doc_content D = ver_content V \<longrightarrow> recorded = [])
       \<and> length recorded \<le> 1
       \<and> list_all (\<lambda>r. doc_id r = doc_id D \<longrightarrow>
                          doc_title r = ver_title V \<and> doc_content r = ver_content V)
           (tbl_documents (fst w1))
       \<and> list_all (\<lambda>r. doc_id r = doc_id D \<longrightarrow>
                          doc_title r = ver_title V \<and> doc_content r = ver_content V)
           (tbl_documents (fst w2))
       \<and> map doc_id (tbl_documents (fst w2)) = map doc_id (tbl_documents d)"
proof -
  let ?a1 = "\<lparr>set_title = Some (ver_title V), set_content = Some (ver_content V),
               set_updated_at = r_date_request env1\<rparr>"
  let ?a2 = "\<lparr>set_title = Some (ver_title V), set_content = Some (ver_content V),
               set_updated_at = r_date_request env2\<rparr>"
  let ?f1 = "\<lambda>r. if doc_id r = doc_id D
                  then update_updated_at_column (r_update_now env1) (apply_set ?a1 r) else r"
  let ?f2 = "\<lambda>r. if doc_id r = doc_id D
                  then update_updated_at_column (r_update_now env2) (apply_set ?a2 r) else r"
  obtain d1 s1 where w1: "w1 = (d1, s1)"
    by (cases w1)
  have first: "tbl_document_versions d1 =
           tbl_document_versions d @ recorded @
           [\<lparr>ver_id = next_uuid d + length recorded, ver_document_id = doc_id D,
              ver_title = ver_title V, ver_content = ver_content V, ver_change_type = restored,
              ver_user_id = u1, ver_created_at = r_insert_now env1\<rparr>]"
    and docs1: "tbl_documents d1 = map ?f1 (tbl_documents d)"
    and pk1: "primary_keys d1"
    and n1: "next_uuid d1 = Suc (next_uuid d + length recorded)"
    using restore_once [OF pk D V ok1, of s] w1
    unfolding w1_def recorded_def NEW_def by simp_all
  have NEW_in: "NEW \<in> set (tbl_documents d1)"
    unfolding docs1 NEW_def using D by force
  have id_NEW: "doc_id NEW = doc_id D"
    by (simp add: NEW_def)
  have V1: "V \<in> set (tbl_document_versions d1)"
    using V by (simp add: first)
  have same: "change_type_val UPDATE NEW
                (update_updated_at_column (r_update_now env2) (apply_set ?a2 NEW)) = None"
    by (rule change_type_val_unchanged)
       (simp_all add: NEW_def update_updated_at_column_def apply_set_def)
  have second: "tbl_document_versions (fst w2) =
           tbl_document_versions d1 @
           [\<lparr>ver_id = next_uuid d1, ver_document_id = doc_id D,
              ver_title = ver_title V, ver_content = ver_content V, ver_change_type = restored,
              ver_user_id = u2, ver_created_at = r_insert_now env2\<rparr>]"
    and docs2: "tbl_documents (fst w2) = map ?f2 (tbl_documents d1)"
    using restore_once [OF pk1 NEW_in V1 ok2, of s1] same
    unfolding w2_def w1 id_NEW by simp_all
  have w2_versions: "tbl_document_versions (fst w2) =
           tbl_document_versions (fst w1) @
           [\<lparr>ver_id = Suc (next_uuid d + length recorded), ver_document_id = doc_id D,
              ver_title = ver_title V, ver_content = ver_content V, ver_change_type = restored,
              ver_user_id = u2, ver_created_at = r_insert_now env2\<rparr>]"
    using second by (simp add: w1 n1)
  have unchanged: "doc_title D = ver_title V \<and> doc_content D = ver_content V \<longrightarrow> recorded = []"
  proof
    assume "doc_title D = ver_title V \<and> doc_content D = ver_content V"
    then have "change_type_val UPDATE D NEW = None"
      by (intro change_type_val_unchanged)
         (simp_all add: NEW_def update_updated_at_column_def apply_set_def)
    then show "recorded = []"
      by (simp add: recorded_def)
  qed
  have kinds: "map ver_change_type recorded =
           (if doc_content D \<noteq> None \<and> ver_content V \<noteq> None \<and> doc_content D \<noteq> ver_content V
            then [content_modified]
            else if doc_title D \<noteq> ver_title V then [title_updated]
            else [])"
    by (cases "doc_content D"; cases "ver_content V")
       (simp_all add: recorded_def NEW_def change_type_val_def sql_ne_def sql_and_def
          is_true_def update_updated_at_column_def apply_set_def)
  have short: "length recorded \<le> 1"
    by (simp add: recorded_def split: option.split)
  have carried1: "list_all (\<lambda>r. doc_id r = doc_id D \<longrightarrow>
                          doc_title r = ver_title V \<and> doc_content r = ver_content V)
           (tbl_documents (fst w1))"
    by (auto simp: w1 docs1 list_all_iff update_updated_at_column_def apply_set_def)
  have carried2: "list_all (\<lambda>r. doc_id r = doc_id D \<longrightarrow>
                          doc_title r = ver_title V \<and> doc_content r = ver_content V)
           (tbl_documents (fst w2))"
    by (auto simp: docs2 list_all_iff update_updated_at_column_def apply_set_def)
  have ids: "map doc_id (tbl_documents (fst w2)) = map doc_id (tbl_documents d)"
    by (simp add: docs2 docs1 o_def if_distrib cong: if_cong)
  from first w2_versions kinds unchanged short carried1 carried2 ids show ?thesis
    by (simp add: w1)
qed

theorem restore_twice_witness:
  "primary_keys (fst scenario_3)
   \<and> live_document \<in> set (tbl_documents (fst scenario_3))
   \<and> first_version \<in> set (tbl_document_versions (fst scenario_3))
   \<and> storage_ok (ok_restore 400) 7 \<and> storage_ok (ok_restore 500) 7
   \<and> map ver_change_type (tbl_document_versions (fst scenario_4)) =
       map ver_change_type (tbl_document_versions (fst scenario_3)) @ [content_modified, restored]
   \<and> map ver_change_type (tbl_document_versions (fst scenario_5)) =
       map ver_change_type (tbl_document_versions (fst scenario_4)) @ [restored]
   \<and> map (\<lambda>r. (doc_title r, doc_content r)) (tbl_documents (fst scenario_4)) =
       [(ver_title first_version, ver_content first_version)]
   \<and> map (\<lambda>r. (doc_title r, doc_content r)) (tbl_documents (fst scenario_5)) =
       [(ver_title first_version, ver_content first_version)]"
proof -
  have pk: "primary_keys (fst scenario_3)"
    by (simp add: scenario_3_eq primary_keys_def)
  have D: "live_document \<in> set (tbl_documents (fst scenario_3))"
    by (simp add: scenario_3_eq live_document_def)
  have V: "first_version \<in> set (tbl_document_versions (fst scenario_3))"
    by (simp add: scenario_3_eq first_version_def)
  have ok1: "storage_ok (ok_restore 400) 7" and ok2: "storage_ok (ok_restore 500) 7"
    by (simp_all add: storage_ok_def ok_restore_def)
  show ?thesis
    using pk D V ok1 ok2 restore_twice [OF pk D V ok1 ok2, of "snd scenario_3"]
    by (simp add: fst_scenario_4 fst_scenario_5 scenario_3_eq first_version_def)
qed

text \<open>C4 as stated fails on the same run: the first call appends two versions, the
  Recorder's and the \<^verbatim>\<open>restored\<close> one, and the two calls append three.\<close>

theorem restore_twice_appends_three_versions:
  "map ver_change_type (tbl_document_versions (fst scenario_3)) =
     [created, content_modified, title_updated]
   \<and> map ver_change_type (tbl_document_versions (fst scenario_4)) =
     [created, content_modified, title_updated, content_modified, restored]
   \<and> map ver_change_type (tbl_document_versions (fst scenario_5)) =
     [created, content_modified, title_updated, content_modified, restored, restored]"
  by (simp add: fst_scenario_5 fst_scenario_4 scenario_3_eq)

section \<open>Delete and the append-only log\<close>

lemma prefix_insert_version_row:
  "prefix (tbl_document_versions d)
     (tbl_document_versions (insert_version_row now did t c ct uid d))"
  by (simp add: tbl_document_versions_insert_version_row)

lemma prefix_update_documents:
  "prefix (tbl_document_versions d) (tbl_document_versions (update_documents now a i d))"
  using update_documents_appends [of now a i d] by (auto simp: prefix_def)

lemma prefix_createDocument:
  "prefix (tbl_document_versions d)
     (tbl_document_versions (fst (snd (createDocument cenv ttl (d, s)))))"
  by (simp add: createDocument_def Let_def insert_document_eq
      tbl_document_versions_insert_version_row split: option.split)

lemma prefix_updateDocument:
  "prefix (tbl_document_versions d)
     (tbl_document_versions (fst (updateDocument uenv i u (d, s))))"
  by (simp add: updateDocument_def Let_def prefix_update_documents split: option.split)

lemma prefix_restoreVersion:
  "prefix (tbl_document_versions d)
     (tbl_document_versions (fst (restoreVersion renv i vid (d, s))))"
proof -
  have ins: "prefix (tbl_document_versions d)
               (tbl_document_versions (insert_version_row now' did t c ct uid
                  (update_documents now a i d)))" for now' did t c ct uid now a
    using prefix_update_documents prefix_insert_version_row by (rule prefix_order.trans)
  show ?thesis
    unfolding restoreVersion_def
    by (auto simp: Let_def fst_fetchVersionHistory insert_document_version_def
        prefix_update_documents ins split: option.split sum.split)
qed

lemma versions_of_delete_documents:
  assumes "foreign_key d"
  shows "versions_of i (delete_documents i d) = []"
proof (cases "i \<in> set (map doc_id (tbl_documents d))")
  case True
  then show ?thesis
    by (simp add: delete_documents_eq versions_of_def)
next
  case False
  then have "\<forall>v \<in> set (tbl_document_versions d). ver_document_id v \<noteq> i"
    using assms unfolding foreign_key_def by metis
  then show ?thesis
    using False by (simp add: delete_documents_eq versions_of_def filter_empty_conv)
qed

lemma versions_of_other_delete_documents:
  "j \<noteq> i \<Longrightarrow> versions_of j (delete_documents i d) = versions_of j d"
  by (auto simp: delete_documents_eq versions_of_def intro: filter_cong)

lemma deleteDocument_ok: "fst (deleteDocument None i (d, s)) = delete_documents i d"
  by (simp add: deleteDocument_def Let_def split: option.split)

text \<open>
  C8. On tables that satisfy the foreign key, a delete that the storage service accepts
  leaves no version of the document: the table has none, and a listing that follows
  returns the empty list. The versions of every other document stay as they were, a
  delete that fails removes nothing, and the other actions of the store only append to
  the version table or leave it as it is.
\<close>

theorem delete_removes_versions_and_nothing_else_does:
  assumes "foreign_key d" and "h_fault henv = None"
  shows "versions_of i (fst (deleteDocument None i (d, s))) = []
       \<and> versions (snd (fetchVersionHistory henv i (deleteDocument None i (d, s)))) = []
       \<and> (\<forall>j. j \<noteq> i \<longrightarrow> versions_of j (fst (deleteDocument None i (d, s))) = versions_of j d)
       \<and> tbl_document_versions (fst (deleteDocument (Some e) i (d, s))) = tbl_document_versions d
       \<and> prefix (tbl_document_versions d)
           (tbl_document_versions (fst (snd (createDocument cenv ttl (d, s)))))
       \<and> prefix (tbl_document_versions d)
           (tbl_document_versions (fst (updateDocument uenv i2 u (d, s))))
       \<and> prefix (tbl_document_versions d)
           (tbl_document_versions (fst (restoreVersion renv i3 vid (d, s))))
       \<and> tbl_document_versions (fst (fetchVersionHistory henv2 i4 (d, s))) =
           tbl_document_versions d
       \<and> tbl_document_versions (fst (fetchDocuments f5 (d, s))) = tbl_document_versions d
       \<and> tbl_document_versions (fst (fetchDocument f6 e6 i6 (d, s))) = tbl_document_versions d
       \<and> tbl_document_versions (fst (clearError (d, s))) = tbl_document_versions d
       \<and> tbl_document_versions (fst (clearVersions (d, s))) = tbl_document_versions d"
proof -
  have gone: "versions_of i (delete_documents i d) = []"
    using assms(1) by (rule versions_of_delete_documents)
  obtain s' where del: "deleteDocument None i (d, s) = (delete_documents i d, s')"
    by (cases "deleteDocument None i (d, s)") (use deleteDocument_ok [of i d s] in simp)
  have "versions (snd (fetchVersionHistory henv i (delete_documents i d, s'))) = []"
    using gone assms(2)
    by (simp add: fetchVersionHistory_ok select_versions_by_document_def versions_of_def)
  then have listed: "versions (snd (fetchVersionHistory henv i (deleteDocument None i (d, s)))) = []"
    by (simp add: del)
  show ?thesis
    using gone listed
    by (simp add: deleteDocument_ok versions_of_other_delete_documents deleteDocument_fault
        prefix_createDocument prefix_updateDocument prefix_restoreVersion
        fst_fetchVersionHistory fst_fetchDocuments fst_fetchDocument clearError_def
        clearVersions_def)
qed

theorem delete_removes_versions_and_nothing_else_does_witness:
  "foreign_key (fst scenario_3) \<and> h_fault ok_history = None
   \<and> length (versions_of 0 (fst scenario_3)) = 3
   \<and> versions_of 0 (fst (deleteDocument None 0 scenario_3)) = []
   \<and> tbl_documents (fst (deleteDocument None 0 scenario_3)) = []
   \<and> versions (snd (fetchVersionHistory ok_history 0 (deleteDocument None 0 scenario_3))) = []"
proof -
  have fk: "foreign_key (fst scenario_3)"
    by (simp add: scenario_3_eq foreign_key_def)
  have h: "h_fault ok_history = None"
    by (simp add: ok_history_def)
  have w: "(fst scenario_3, snd scenario_3) = scenario_3"
    by simp
  note t = delete_removes_versions_and_nothing_else_does
             [OF fk h, of 0 "snd scenario_3", unfolded w]
  have a: "versions_of 0 (fst (deleteDocument None 0 scenario_3)) = []"
    by (rule t [THEN conjunct1])
  have b: "versions (snd (fetchVersionHistory ok_history 0 (deleteDocument None 0 scenario_3))) = []"
    by (rule t [THEN conjunct2, THEN conjunct1])
  have c: "length (versions_of 0 (fst scenario_3)) = 3"
    by (simp add: scenario_3_eq versions_of_def)
  have "tbl_documents (delete_documents 0 (fst scenario_3)) = []"
    by (simp add: delete_documents_eq scenario_3_eq)
  then have d: "tbl_documents (fst (deleteDocument None 0 scenario_3)) = []"
    using deleteDocument_ok [of 0 "fst scenario_3" "snd scenario_3"] by simp
  from fk h a b c d show ?thesis
    by simp
qed

section \<open>Auto-save is debounced\<close>

lemma snoc_eq_append_Cons:
  "l @ [e] = xs @ a # ys \<longleftrightarrow>
     (ys = [] \<and> xs = l \<and> a = e) \<or> (\<exists>ys'. ys = ys' @ [e] \<and> l = xs @ a # ys')"
  by (cases ys rule: rev_cases) auto

lemma debounced_Nil: "debounced []"
  by (simp add: debounced_def)

lemma debounced_Edited: "debounced l \<Longrightarrow> debounced (l @ [Edited t ti co])"
  unfolding debounced_def snoc_eq_append_Cons by blast

lemma debounced_Wrote:
  assumes "debounced l" and "l = zs @ [Edited t' ti co]" and "t' + 1000 \<le> t"
    and "\<forall>e \<in> set zs. entry_time e \<le> t'"
  shows "debounced (l @ [Wrote t ti co])"
  unfolding debounced_def
proof (intro allI impI)
  fix xs t0 ti0 co0 ys
  assume "l @ [Wrote t ti co] = xs @ Wrote t0 ti0 co0 # ys"
  then consider "ys = []" "xs = l" "Wrote t0 ti0 co0 = Wrote t ti co"
    | ys' where "ys = ys' @ [Wrote t ti co]" "l = xs @ Wrote t0 ti0 co0 # ys'"
    unfolding snoc_eq_append_Cons by blast
  then show "\<exists>zs t'. xs = zs @ [Edited t' ti0 co0] \<and> t' + 1000 \<le> t0 \<and>
                     (\<forall>e \<in> set zs. entry_time e \<le> t')"
  proof cases
    case 1
    then show ?thesis using assms(2-4) by auto
  next
    case 2
    then show ?thesis using assms(1) unfolding debounced_def by blast
  qed
qed

lemma currentDocument_updateDocument:
  "currentDocument (snd (updateDocument env i u b)) =
     (case currentDocument (snd b) of
        None \<Rightarrow> None
      | Some currentDoc \<Rightarrow>
          if u_fault env = None \<and> doc_id currentDoc = i
          then Some (merge_updates u (u_date_current env) currentDoc)
          else Some currentDoc)"
  by (cases b) (simp add: updateDocument_def Let_def split: option.split)

lemma page_invariant_tick:
  "page_invariant w \<Longrightarrow> page_invariant (w\<lparr>clock := clock w + n\<rparr>)"
  by (fastforce simp: page_invariant_def)

lemma page_invariant_edit:
  assumes "page_invariant w"
  shows "page_invariant (edit t c w)"
proof (cases "t = title (page w) \<and> c = content (page w)")
  case True
  then show ?thesis using assms by (simp add: edit_def)
next
  case False
  have le: "\<forall>e \<in> set (log w). entry_time e \<le> clock w"
    and sorted: "sorted_wrt (\<lambda>a b. entry_time a \<le> entry_time b) (log w)"
    and deb: "debounced (log w)"
    using assms by (simp_all add: page_invariant_def)
  show ?thesis
    unfolding page_invariant_def
    using False le sorted debounced_Edited [OF deb, of "clock w" t c]
    by (auto simp: edit_def auto_save_effect_def sorted_wrt_append split: option.splits)
qed

lemma page_invariant_timer_fires:
  assumes "page_invariant w"
  shows "page_invariant (timer_fires w)"
proof (cases "timeoutId (page w)")
  case None
  then show ?thesis using assms by (simp add: timer_fires_def)
next
  case (Some tm)
  have le: "\<forall>e \<in> set (log w). entry_time e \<le> clock w"
    and sorted: "sorted_wrt (\<lambda>a b. entry_time a \<le> entry_time b) (log w)"
    and deb: "debounced (log w)"
    and closure: "saved_title tm = title (page w)" "saved_content tm = content (page w)"
    using assms Some by (simp_all add: page_invariant_def)
  show ?thesis
  proof (cases "clock w < deadline tm")
    case True
    then show ?thesis using assms Some by (simp add: timer_fires_def)
  next
    case due: False
    show ?thesis
    proof (cases "saveDocument tm")
      case None
      then show ?thesis
        using due Some le sorted deb
        by (simp add: timer_fires_def page_invariant_def)
    next
      case (Some u)
      then obtain zs t' where
        last: "log w = zs @ [Edited t' (title (page w)) (content (page w))]"
        and old: "t' + 1000 \<le> deadline tm"
        using assms \<open>timeoutId (page w) = Some tm\<close> unfolding page_invariant_def
        by (metis option.distinct(1))
      have before: "\<forall>e \<in> set zs. entry_time e \<le> t'"
        using sorted unfolding last by (simp add: sorted_wrt_append)
      have "t' + 1000 \<le> clock w"
        using old due by simp
      then have "debounced (log w @ [Wrote (clock w) (title (page w)) (content (page w))])"
        using deb last before by (intro debounced_Wrote) simp_all
      then show ?thesis
        using due Some \<open>timeoutId (page w) = Some tm\<close> le sorted closure
        by (simp add: timer_fires_def page_invariant_def sorted_wrt_append)
    qed
  qed
qed

lemma page_invariant_save_completes:
  assumes "page_invariant w"
  shows "page_invariant (save_completes k env w)"
proof (cases "length (in_flight w) \<le> k")
  case True
  then show ?thesis using assms by (simp add: save_completes_def)
next
  case False
  obtain i u where iu: "in_flight w ! k = (i, u)"
    by (cases "in_flight w ! k")
  let ?b = "updateDocument env i u (backend w)"
  have le: "\<forall>e \<in> set (log w). entry_time e \<le> clock w"
    and sorted: "sorted_wrt (\<lambda>a b. entry_time a \<le> entry_time b) (log w)"
    and deb: "debounced (log w)"
    using assms by (simp_all add: page_invariant_def)
  show ?thesis
  proof (cases "currentDocument (snd (backend w))")
    case None
    then have "currentDocument (snd ?b) = None"
      by (simp add: currentDocument_updateDocument)
    then show ?thesis
      using False iu None assms
      by (simp add: save_completes_def page_invariant_def)
  next
    case (Some currentDoc)
    show ?thesis
    proof (cases "u_fault env = None \<and> doc_id currentDoc = i")
      case True
      then have "currentDocument (snd ?b) = Some (merge_updates u (u_date_current env) currentDoc)"
        using Some by (simp add: currentDocument_updateDocument)
      then show ?thesis
        using False iu Some True le sorted deb
        by (simp add: save_completes_def page_invariant_def auto_save_effect_def
            saveDocument_def)
    next
      case same: False
      then have "currentDocument (snd ?b) = Some currentDoc"
        using Some by (auto simp: currentDocument_updateDocument)
      then show ?thesis
        using False iu Some same assms
        by (auto simp: save_completes_def page_invariant_def)
    qed
  qed
qed

lemma page_invariant_step: "page_invariant w \<Longrightarrow> page_invariant (step e w)"
  by (cases e)
     (simp_all add: page_invariant_tick page_invariant_edit page_invariant_timer_fires
        page_invariant_save_completes)

lemma page_invariant_opened: "page_invariant (opened i now b)"
  by (auto simp: opened_def page_invariant_def debounced_Nil auto_save_effect_def
      saveDocument_def split: option.split)

lemma page_invariant_run: "page_invariant w \<Longrightarrow> page_invariant (run evs w)"
  unfolding run_def by (induction evs arbitrary: w) (simp_all add: page_invariant_step)

text \<open>
  What holds of the writes that are issued, after any events on the page of an open
  document: every write in the log comes directly after the edit that produced the title
  and content it carries, that edit is a second or more older than the write, and no
  entry before it is later, so no edit falls in the second before a write and two writes
  have an edit between them; an edit that changes the title or the content starts the
  timer anew, one second from the edit; and when the page's title and content are those
  of the current document, a timer that fires issues no write.
\<close>

theorem autosave_is_debounced:
  fixes evs :: "event list" and i :: uuid and now :: timestamp and b :: "db \<times> DocumentState"
  defines "w \<equiv> run evs (opened i now b)"
  shows "(\<forall>xs t ti co ys. log w = xs @ Wrote t ti co # ys \<longrightarrow>
            (\<exists>zs t'. xs = zs @ [Edited t' ti co] \<and> t' + 1000 \<le> t \<and>
                      (\<forall>e \<in> set zs. entry_time e \<le> t')))
       \<and> (\<forall>t. t \<noteq> title (page w) \<and> currentDocument (snd (backend w)) \<noteq> None \<longrightarrow>
            map_option deadline (timeoutId (page (step (TitleChange t) w))) =
              Some (clock w + 1000))
       \<and> (\<forall>c. Some c \<noteq> content (page w) \<and> currentDocument (snd (backend w)) \<noteq> None \<longrightarrow>
            map_option deadline (timeoutId (page (step (ContentChange c) w))) =
              Some (clock w + 1000))
       \<and> ((\<forall>currentDoc. currentDocument (snd (backend w)) = Some currentDoc \<longrightarrow>
              title (page w) = doc_title currentDoc \<and> content (page w) = doc_content currentDoc)
            \<longrightarrow> log (step TimerFires w) = log w \<and> in_flight (step TimerFires w) = in_flight w)"
proof -
  have inv: "page_invariant w"
    unfolding w_def by (intro page_invariant_run page_invariant_opened)
  have 1: "\<forall>xs t ti co ys. log w = xs @ Wrote t ti co # ys \<longrightarrow>
            (\<exists>zs t'. xs = zs @ [Edited t' ti co] \<and> t' + 1000 \<le> t \<and>
                      (\<forall>e \<in> set zs. entry_time e \<le> t'))"
    using inv by (simp add: page_invariant_def debounced_def)
  have 2: "\<forall>t. t \<noteq> title (page w) \<and> currentDocument (snd (backend w)) \<noteq> None \<longrightarrow>
            map_option deadline (timeoutId (page (step (TitleChange t) w))) =
              Some (clock w + 1000)"
    by (auto simp: edit_def auto_save_effect_def)
  have 3: "\<forall>c. Some c \<noteq> content (page w) \<and> currentDocument (snd (backend w)) \<noteq> None \<longrightarrow>
            map_option deadline (timeoutId (page (step (ContentChange c) w))) =
              Some (clock w + 1000)"
    by (auto simp: edit_def auto_save_effect_def)
  have 4: "log (step TimerFires w) = log w \<and> in_flight (step TimerFires w) = in_flight w"
    if same: "\<forall>currentDoc. currentDocument (snd (backend w)) = Some currentDoc \<longrightarrow>
              title (page w) = doc_title currentDoc \<and> content (page w) = doc_content currentDoc"
  proof (cases "timeoutId (page w)")
    case None
    then show ?thesis by (simp add: timer_fires_def)
  next
    case (Some tm)
    then have "saved_title tm = title (page w)" "saved_content tm = content (page w)"
      "currentDocument (snd (backend w)) = Some (saved_document tm)"
      using inv by (simp_all add: page_invariant_def)
    then have "saveDocument tm = None"
      using same by (simp add: saveDocument_def)
    then show ?thesis
      using Some by (simp add: timer_fires_def)
  qed
  from 1 2 3 4 show ?thesis
    by blast
qed

lemma page_scenario_eq:
  "page_scenario =
     \<lparr>page =
        \<lparr>route_id = 0, title = ''Draft'', content = Some [],
          timeoutId =
            Some \<lparr>deadline = 1150, saved_title = ''Draft'', saved_content = Some [],
                   saved_document =
                     \<lparr>doc_id = 0, doc_title = ''Draft'', doc_content = Some [],
                       doc_created_at = 100, doc_updated_at = 100, doc_user_id = 7\<rparr>\<rparr>,
          isSaving = False\<rparr>,
      backend =
        (fst scenario_1,
         initial_state
           \<lparr>documents :=
              [\<lparr>doc_id = 0, doc_title = ''Draft'', doc_content = Some [], doc_created_at = 100,
                 doc_updated_at = 100, doc_user_id = 7\<rparr>],
            currentDocument :=
              Some \<lparr>doc_id = 0, doc_title = ''Draft'', doc_content = Some [],
                     doc_created_at = 100, doc_updated_at = 100, doc_user_id = 7\<rparr>\<rparr>),
      in_flight = [], clock = 150, log = []\<rparr>"
  by (simp add: page_scenario_def opened_def fetchDocument_def single_def scenario_1_eq
      auto_save_effect_def initial_state_def)

lemma run_page_events:
  "log (run page_events page_scenario) =
     [Edited 150 ''Draft 2'' (Some []), Edited 550 ''Draft 2'' (Some ''Hi''),
      Wrote 1550 ''Draft 2'' (Some ''Hi'')]
   \<and> log (run (take 5 page_events) page_scenario) =
     [Edited 150 ''Draft 2'' (Some []), Edited 550 ''Draft 2'' (Some ''Hi'')]
   \<and> in_flight (run page_events page_scenario) = []
   \<and> timeoutId (page (run page_events page_scenario)) = None"
  by (simp add: run_def page_events_def page_scenario_eq edit_def timer_fires_def
      save_completes_def saveDocument_def auto_save_effect_def updateDocument_def
      ok_update_def merge_updates_def initial_state_def Let_def)

theorem autosave_is_debounced_witness:
  "log (run page_events page_scenario) =
     [Edited 150 ''Draft 2'' (Some [])] @ [Edited 550 ''Draft 2'' (Some ''Hi'')] @
     Wrote 1550 ''Draft 2'' (Some ''Hi'') # []
   \<and> 550 + 1000 \<le> (1550 :: nat)
   \<and> log (run (take 5 page_events) page_scenario) =
     [Edited 150 ''Draft 2'' (Some []), Edited 550 ''Draft 2'' (Some ''Hi'')]
   \<and> in_flight (run page_events page_scenario) = []
   \<and> timeoutId (page (run page_events page_scenario)) = None"
  using autosave_is_debounced [of page_events 0 150 "fetchDocument None NonError 0 scenario_1"]
    run_page_events
  by (simp add: page_scenario_def)

text \<open>A timer that is due on a page that differs from the current document puts the
  page's title and content in flight.\<close>

lemma due_timer_writes_the_page:
  assumes "page_invariant w" and "timeoutId (page w) = Some tm" and "deadline tm \<le> clock w"
    and "currentDocument (snd (backend w)) = Some currentDoc"
    and "title (page w) \<noteq> doc_title currentDoc \<or> content (page w) \<noteq> doc_content currentDoc"
  shows "in_flight (step TimerFires w) =
           in_flight w @
           [(route_id (page w),
             \<lparr>upd_title = Some (title (page w)), upd_content = Some (content (page w))\<rparr>)]
       \<and> log (step TimerFires w) = log w @ [Wrote (clock w) (title (page w)) (content (page w))]
       \<and> timeoutId (page (step TimerFires w)) = None"
proof -
  have closure: "saved_title tm = title (page w)" "saved_content tm = content (page w)"
    "saved_document tm = currentDoc"
    using assms(1,2,4) by (simp_all add: page_invariant_def)
  then have "saveDocument tm =
               Some \<lparr>upd_title = Some (title (page w)), upd_content = Some (content (page w))\<rparr>"
    using assms(5) by (auto simp: saveDocument_def)
  then show ?thesis
    using assms(2,3) closure by (simp add: timer_fires_def)
qed

text \<open>
  C9. Rapid edits that are made while a write is in flight do not end in a write. At this
  input the write of ``a'' is in flight when the page is edited to ``ab'' and, a tenth of
  a second later, to ``abc''. When the write is answered the effect that loads the
  current document into the page sets the content back to ``a''; the timer that follows
  finds the page equal to the current document, and after a minute of quiet no write
  has carried ``abc'': the log has no write after the two edits, nothing is in flight,
  no timer is pending, and the table holds ``a''.
\<close>

theorem edits_during_a_write_are_never_written:
  "log (run (take 7 burst_events) page_scenario) =
     [Edited 150 ''Draft'' (Some ''a''), Wrote 1150 ''Draft'' (Some ''a''),
      Edited 1250 ''Draft'' (Some ''ab''), Edited 1350 ''Draft'' (Some ''abc'')]
   \<and> content (page (run (take 7 burst_events) page_scenario)) = Some ''abc''
   \<and> in_flight (run (take 7 burst_events) page_scenario) =
       [(0, \<lparr>upd_title = Some ''Draft'', upd_content = Some (Some ''a'')\<rparr>)]
   \<and> log (run burst_events page_scenario) = log (run (take 7 burst_events) page_scenario)
   \<and> content (page (run burst_events page_scenario)) = Some ''a''
   \<and> map doc_content (tbl_documents (fst (backend (run burst_events page_scenario)))) =
       [Some ''a'']
   \<and> in_flight (run burst_events page_scenario) = []
   \<and> timeoutId (page (run burst_events page_scenario)) = None"
  by (simp add: run_def burst_events_def page_scenario_eq scenario_1_eq edit_def
      timer_fires_def save_completes_def saveDocument_def auto_save_effect_def
      ok_update_def initial_state_def store_defs)

end
